theory Spec2Isabelle
  imports Main
begin

section \<open>The catalog table\<close>

text \<open>
  One row of the table \<^verbatim>\<open>files\<close> created by \<^verbatim>\<open>create_table\<close>. The column
  \<^verbatim>\<open>id\<close> is the position of the row in the table: the table is a list in insertion
  order, and a row is only ever appended. The column \<^verbatim>\<open>size\<close> is the field
  \<open>size_bytes\<close>. The text columns hold strings, as every insert of the scripts writes
  them, and the statements on the table are taken not to fail.
\<close>

record file_row =
  hash :: string
  path :: string
  size_bytes :: int
  date_taken :: string
  date_saved :: string
  duplicate :: int

type_synonym files_table = "file_row list"

section \<open>Paths and extensions\<close>

definition IMAGE_EXTENSIONS :: "string set" where
  "IMAGE_EXTENSIONS = {''.jpg'', ''.jpeg'', ''.png'', ''.gif'', ''.bmp'', ''.tiff''}"

definition VIDEO_EXTENSIONS :: "string set" where
  "VIDEO_EXTENSIONS = {''.mp4'', ''.avi'', ''.mov'', ''.mkv'', ''.wmv'', ''.flv''}"

text \<open>\<^verbatim>\<open>str.lower\<close> on the ASCII letters; other characters are left as they are.\<close>

definition lower_char :: "char \<Rightarrow> char" where
  "lower_char c =
     (case map_of (zip ''ABCDEFGHIJKLMNOPQRSTUVWXYZ'' ''abcdefghijklmnopqrstuvwxyz'') c of
        Some d \<Rightarrow> d
      | None \<Rightarrow> c)"

definition lower :: "string \<Rightarrow> string" where
  "lower s = map lower_char s"

text \<open>
  \<^verbatim>\<open>Path(p).name\<close> and \<^verbatim>\<open>Path(p).suffix\<close> for the Windows flavour the scripts are
  configured for (\<^verbatim>\<open>H:\My Media\<close>): both slash and backslash separate components, and
  the suffix is \<^verbatim>\<open>name[i:]\<close> for \<^verbatim>\<open>i = name.rfind('.')\<close> when \<^verbatim>\<open>0 < i < len(name) - 1\<close>,
  the empty string otherwise. A path is taken to end in a file name, as the paths that
  \<^verbatim>\<open>find_media_files\<close> joins do.
\<close>

definition is_sep :: "char \<Rightarrow> bool" where
  "is_sep c = (c = CHR ''/'' \<or> c = CHR 0x5C)"

definition path_name :: "string \<Rightarrow> string" where
  "path_name p = rev (takeWhile (\<lambda>c. \<not> is_sep c) (dropWhile is_sep (rev p)))"

definition path_suffix :: "string \<Rightarrow> string" where
  "path_suffix p =
     (let name = path_name p;
          after = takeWhile (\<lambda>c. c \<noteq> CHR ''.'') (rev name)
      in if CHR ''.'' \<in> set name \<and> after \<noteq> [] \<and> length after + 1 < length name
         then CHR ''.'' # rev after
         else [])"

section \<open>Timestamps\<close>

record datetime =
  year :: nat
  month :: nat
  day :: nat
  hour :: nat
  minute :: nat
  second :: nat
  microsecond :: nat

definition digit_char :: "nat \<Rightarrow> char" where
  "digit_char d = ''0123456789'' ! (d mod 10)"

text \<open>The decimal numeral of \<open>n\<close>, its last \<open>k\<close> digits, zero padded (\<^verbatim>\<open>%0kd\<close>).\<close>

fun zero_padded :: "nat \<Rightarrow> nat \<Rightarrow> string" where
  "zero_padded 0 n = []"
| "zero_padded (Suc k) n = zero_padded k (n div 10) @ [digit_char n]"

text \<open>\<^verbatim>\<open>strftime("%Y-%m-%d %H:%M:%S")\<close>, for a year of four digits.\<close>

definition strftime_Ymd_HMS :: "datetime \<Rightarrow> string" where
  "strftime_Ymd_HMS d =
     zero_padded 4 (year d) @ ''-'' @ zero_padded 2 (month d) @ ''-'' @ zero_padded 2 (day d)
     @ '' '' @ zero_padded 2 (hour d) @ '':'' @ zero_padded 2 (minute d) @ '':''
     @ zero_padded 2 (second d)"

text \<open>\<^verbatim>\<open>datetime.isoformat()\<close>: the fraction is printed only when it is not zero.\<close>

definition isoformat :: "datetime \<Rightarrow> string" where
  "isoformat d =
     zero_padded 4 (year d) @ ''-'' @ zero_padded 2 (month d) @ ''-'' @ zero_padded 2 (day d)
     @ ''T'' @ zero_padded 2 (hour d) @ '':'' @ zero_padded 2 (minute d) @ '':''
     @ zero_padded 2 (second d)
     @ (if microsecond d = 0 then [] else ''.'' @ zero_padded 6 (microsecond d))"

section \<open>The files on disk, as the scan reads them\<close>

text \<open>
  What \<^verbatim>\<open>img._getexif()\<close> inside \<^verbatim>\<open>Image.open\<close> gives: an exception, \<^verbatim>\<open>None\<close>, or the
  dictionary of tags in its iteration order.
\<close>

datatype exif_read = Exif_Raises | Exif_None | Exif_Data "(nat \<times> string) list"

text \<open>
  What \<^verbatim>\<open>createParser\<close> and \<^verbatim>\<open>extractMetadata\<close> give: an exception, no parser, no
  metadata, or metadata with or without a \<^verbatim>\<open>creation_date\<close>.
\<close>

datatype video_read =
  Video_Raises | Video_No_Parser | Video_No_Metadata | Video_Metadata "datetime option"

text \<open>
  The scan only reads the disk. \<open>sha1_hexdigest\<close> is the digest of the bytes of a file
  (\<open>None\<close>: the file cannot be opened or read); \<open>stat_file\<close> is its size and its creation
  time as \<^verbatim>\<open>datetime.fromtimestamp\<close> gives it (\<open>None\<close>: the path cannot be examined);
  \<open>clock\<close> is what \<^verbatim>\<open>datetime.now()\<close> returns at its n-th call.
\<close>

record world =
  sha1_hexdigest :: "string \<Rightarrow> string option"
  stat_file :: "string \<Rightarrow> (int \<times> datetime) option"
  getexif :: "string \<Rightarrow> exif_read"
  video_metadata :: "string \<Rightarrow> video_read"
  clock :: "nat \<Rightarrow> datetime"

text \<open>In Python 3 \<^verbatim>\<open>IOError\<close> is \<^verbatim>\<open>OSError\<close>; the two names tell the raising call.\<close>

datatype error = IOError string | OSError string

definition hash_file :: "world \<Rightarrow> string \<Rightarrow> error + string" where
  "hash_file w filepath =
     (case sha1_hexdigest w filepath of
        None \<Rightarrow> Inl (IOError filepath)
      | Some digest \<Rightarrow> Inr digest)"

section \<open>The metadata of a file in getmediainfo.py\<close>

text \<open>
  The loop over \<^verbatim>\<open>exif_data.items()\<close>: \<^verbatim>\<open>TAGS.get(tag, tag) == 'DateTimeOriginal'\<close>
  holds for the tag 36867 (0x9003) only, and the loop stops at the first such item.
\<close>

definition exif_date_time_original :: "(nat \<times> string) list \<Rightarrow> string option" where
  "exif_date_time_original items =
     map_option snd (find (\<lambda>item. fst item = 36867) items)"

definition embedded_date_taken :: "world \<Rightarrow> string \<Rightarrow> string option" where
  "embedded_date_taken w filepath =
     (let ext = lower (path_suffix filepath)
      in if ext \<in> IMAGE_EXTENSIONS then
           (case getexif w filepath of
              Exif_Raises \<Rightarrow> None
            | Exif_None \<Rightarrow> None
            | Exif_Data items \<Rightarrow> exif_date_time_original items)
         else if ext \<in> VIDEO_EXTENSIONS then
           (case video_metadata w filepath of
              Video_Metadata (Some d) \<Rightarrow> Some (strftime_Ymd_HMS d)
            | _ \<Rightarrow> None)
         else None)"

text \<open>
  \<^verbatim>\<open>get_file_info\<close> at the n-th reading of the clock. \<^verbatim>\<open>os.path.getsize\<close> raises when
  the path cannot be examined; \<^verbatim>\<open>if not date_taken\<close> holds for \<^verbatim>\<open>None\<close> and for the
  empty string.
\<close>

definition get_file_info :: "world \<Rightarrow> nat \<Rightarrow> string \<Rightarrow> error + (int \<times> string \<times> string)" where
  "get_file_info w n filepath =
     (case stat_file w filepath of
        None \<Rightarrow> Inl (OSError filepath)
      | Some (sz, ctime) \<Rightarrow>
          Inr (sz,
               (case embedded_date_taken w filepath of
                  None \<Rightarrow> isoformat ctime
                | Some v \<Rightarrow> if v = [] then isoformat ctime else v),
               isoformat (clock w n)))"

section \<open>The log files\<close>

text \<open>
  The records the scripts write to their log files that tell what was done with a file:
  the skip of \<^verbatim>\<open>getmediainfo.py\<close> (path and hash), and the four outcomes and the
  closing line of \<^verbatim>\<open>reorder.py\<close>. The diagnostics \<^verbatim>\<open>get_file_info\<close> logs when the
  metadata of a file cannot be read are left out.
\<close>

datatype log_record =
  Skipped_same_path string string
| Skipped_duplicate string string
| Unknown_file_type string
| Moved string string
| Error_moving string string
| Completed

section \<open>The scan of getmediainfo.py\<close>

text \<open>
  What a script works on besides the disk: the table (every insert is committed at once),
  how often the clock has been read, and the log.
\<close>

record script_state =
  files :: files_table
  clock_reads :: nat
  logged :: "log_record list"

text \<open>\<^verbatim>\<open>SELECT COUNT(*) FROM files WHERE path = ?\<close>, compared with 0.\<close>

definition path_exists :: "files_table \<Rightarrow> string \<Rightarrow> bool" where
  "path_exists tbl p = (length (filter (\<lambda>r. path r = p) tbl) > 0)"

text \<open>\<^verbatim>\<open>SELECT hash FROM files WHERE hash = ?\<close> followed by \<^verbatim>\<open>fetchone\<close>.\<close>

definition select_hash :: "files_table \<Rightarrow> string \<Rightarrow> string option" where
  "select_hash tbl h = map_option hash (find (\<lambda>r. hash r = h) tbl)"

definition insert_file_info :: "script_state \<Rightarrow> file_row \<Rightarrow> script_state" where
  "insert_file_info s file_info = s\<lparr>files := files s @ [file_info]\<rparr>"

text \<open>The tuple \<^verbatim>\<open>(file_hash, file, size, date_taken, date_saved, duplicate)\<close>.\<close>

definition file_info_row :: "string \<Rightarrow> string \<Rightarrow> int \<times> string \<times> string \<Rightarrow> int \<Rightarrow> file_row" where
  "file_info_row file_hash file info dup =
     \<lparr>hash = file_hash, path = file, size_bytes = fst info, date_taken = fst (snd info),
      date_saved = snd (snd info), duplicate = dup\<rparr>"

text \<open>
  The body of the loop of \<^verbatim>\<open>find_duplicates_and_store\<close>, on the script's state and the
  dictionary \<^verbatim>\<open>hashes\<close>: \<open>Inl\<close> is the exception that leaves the loop and the function
  (nothing catches it), \<open>Inr\<close> the state after the iteration.
\<close>

definition store_file ::
  "world \<Rightarrow> string \<Rightarrow> script_state \<times> (string \<rightharpoonup> string)
     \<Rightarrow> error + script_state \<times> (string \<rightharpoonup> string)" where
  "store_file w file st =
     (case hash_file w file of
        Inl e \<Rightarrow> Inl e
      | Inr file_hash \<Rightarrow>
          (case get_file_info w (clock_reads (fst st)) file of
             Inl e \<Rightarrow> Inl e
           | Inr info \<Rightarrow>
               (let s = (fst st)\<lparr>clock_reads := Suc (clock_reads (fst st))\<rparr>;
                    hashes = snd st
                in if path_exists (files s) file then
                     Inr (s\<lparr>logged := logged s @ [Skipped_same_path file file_hash]\<rparr>, hashes)
                   else if select_hash (files s) file_hash \<noteq> None then
                     Inr (insert_file_info s (file_info_row file_hash file info 1), hashes)
                   else if hashes file_hash \<noteq> None then
                     Inr (insert_file_info s (file_info_row file_hash file info 1), hashes)
                   else
                     Inr (insert_file_info s (file_info_row file_hash file info 0),
                          hashes(file_hash \<mapsto> file_hash)))))"

fun store_files ::
  "world \<Rightarrow> string list \<Rightarrow> script_state \<times> (string \<rightharpoonup> string)
     \<Rightarrow> error option \<times> script_state \<times> (string \<rightharpoonup> string)" where
  "store_files w [] st = (None, st)"
| "store_files w (file # rest) st =
     (case store_file w file st of
        Inl e \<Rightarrow> (Some e, st)
      | Inr st' \<Rightarrow> store_files w rest st')"

text \<open>
  \<^verbatim>\<open>find_duplicates_and_store(conn, files)\<close>: \<^verbatim>\<open>hashes\<close> starts empty and is dropped at
  the end.
\<close>

definition find_duplicates_and_store ::
  "world \<Rightarrow> string list \<Rightarrow> script_state \<Rightarrow> error option \<times> script_state" where
  "find_duplicates_and_store w fs s =
     (case store_files w fs (s, Map.empty) of (e, s', hashes) \<Rightarrow> (e, s'))"

section \<open>findmediafiles.py\<close>

definition get_file_info_fm :: "world \<Rightarrow> nat \<Rightarrow> string \<Rightarrow> error + (int \<times> string \<times> string)" where
  "get_file_info_fm w n filepath =
     (case stat_file w filepath of
        None \<Rightarrow> Inl (OSError filepath)
      | Some (sz, ctime) \<Rightarrow> Inr (sz, isoformat ctime, isoformat (clock w n)))"

definition store_file_fm ::
  "world \<Rightarrow> string \<Rightarrow> script_state \<times> (string \<rightharpoonup> string)
     \<Rightarrow> error + script_state \<times> (string \<rightharpoonup> string)" where
  "store_file_fm w file st =
     (case hash_file w file of
        Inl e \<Rightarrow> Inl e
      | Inr file_hash \<Rightarrow>
          (case get_file_info_fm w (clock_reads (fst st)) file of
             Inl e \<Rightarrow> Inl e
           | Inr info \<Rightarrow>
               (let s = (fst st)\<lparr>clock_reads := Suc (clock_reads (fst st))\<rparr>;
                    hashes = snd st
                in if hashes file_hash \<noteq> None then
                     Inr (insert_file_info s (file_info_row file_hash file info 1), hashes)
                   else
                     Inr (insert_file_info s (file_info_row file_hash file info 0),
                          hashes(file_hash \<mapsto> file_hash)))))"

fun store_files_fm ::
  "world \<Rightarrow> string list \<Rightarrow> script_state \<times> (string \<rightharpoonup> string)
     \<Rightarrow> error option \<times> script_state \<times> (string \<rightharpoonup> string)" where
  "store_files_fm w [] st = (None, st)"
| "store_files_fm w (file # rest) st =
     (case store_file_fm w file st of
        Inl e \<Rightarrow> (Some e, st)
      | Inr st' \<Rightarrow> store_files_fm w rest st')"

definition find_duplicates_and_store_fm ::
  "world \<Rightarrow> string list \<Rightarrow> script_state \<Rightarrow> error option \<times> script_state" where
  "find_duplicates_and_store_fm w fs s =
     (case store_files_fm w fs (s, Map.empty) of (e, s', hashes) \<Rightarrow> (e, s'))"

section \<open>reorder.py\<close>

text \<open>
  The operating system under the script, over any representation \<open>'fs\<close> of the disk.
  \<open>makedirs\<close> is \<^verbatim>\<open>os.makedirs(d, exist_ok=True)\<close> and \<open>move\<close> is \<^verbatim>\<open>shutil.move\<close>: each
  gives the disk after the call and, when the call raised, the text of the exception.
  \<open>path_join\<close> is \<^verbatim>\<open>os.path.join\<close>.
\<close>

record 'fs os_api =
  makedirs :: "'fs \<Rightarrow> string \<Rightarrow> string option \<times> 'fs"
  move :: "'fs \<Rightarrow> string \<Rightarrow> string \<Rightarrow> string option \<times> 'fs"
  path_join :: "string \<Rightarrow> string \<Rightarrow> string"

definition BASE_LOCATION :: string where
  "BASE_LOCATION = [CHR ''H'', CHR '':'', CHR 0x5C] @ ''My Media''"

definition BASE_PHOTO_DIR :: "('fs, 'x) os_api_scheme \<Rightarrow> string" where
  "BASE_PHOTO_DIR os = path_join os BASE_LOCATION ''photos''"

definition BASE_VIDEO_DIR :: "('fs, 'x) os_api_scheme \<Rightarrow> string" where
  "BASE_VIDEO_DIR os = path_join os BASE_LOCATION ''videos''"

record 'fs reorder_state =
  disk :: 'fs
  moved_files :: "string \<rightharpoonup> string"
  reorder_log :: "log_record list"

text \<open>The choice of \<^verbatim>\<open>base_dir\<close>; \<open>None\<close> is the branch that warns and continues.\<close>

definition base_dir_for :: "'fs os_api \<Rightarrow> string \<Rightarrow> string option" where
  "base_dir_for os file_path =
     (let ext = lower (path_suffix file_path)
      in if ext \<in> IMAGE_EXTENSIONS then Some (BASE_PHOTO_DIR os)
         else if ext \<in> VIDEO_EXTENSIONS then Some (BASE_VIDEO_DIR os)
         else None)"

text \<open>
  The body of the loop over \<^verbatim>\<open>file_records\<close>, for one row of
  \<^verbatim>\<open>SELECT path, hash, date_taken FROM files\<close>. The first component is the exception
  that leaves the loop: only \<^verbatim>\<open>os.makedirs\<close> can raise outside the \<^verbatim>\<open>try\<close>.
\<close>

definition reorder_record ::
  "'fs os_api \<Rightarrow> file_row \<Rightarrow> 'fs reorder_state \<Rightarrow> string option \<times> 'fs reorder_state" where
  "reorder_record os r st =
     (if moved_files st (hash r) \<noteq> None then
        (None, st\<lparr>reorder_log := reorder_log st @ [Skipped_duplicate (path r) (hash r)]\<rparr>)
      else
        (case base_dir_for os (path r) of
           None \<Rightarrow> (None, st\<lparr>reorder_log := reorder_log st @ [Unknown_file_type (path r)]\<rparr>)
         | Some base_dir \<Rightarrow>
             (let year = take 4 (date_taken r);
                  destination_dir = path_join os base_dir year
              in case makedirs os (disk st) destination_dir of
                   (Some exn, d1) \<Rightarrow> (Some exn, st\<lparr>disk := d1\<rparr>)
                 | (None, d1) \<Rightarrow>
                     (let destination_path = path_join os destination_dir (path_name (path r))
                      in case move os d1 (path r) destination_path of
                           (Some exn, d2) \<Rightarrow>
                             (None, st\<lparr>disk := d2,
                                       reorder_log := reorder_log st @ [Error_moving (path r) exn]\<rparr>)
                         | (None, d2) \<Rightarrow>
                             (None, st\<lparr>disk := d2,
                                       reorder_log :=
                                         reorder_log st @ [Moved (path r) destination_path],
                                       moved_files :=
                                         (moved_files st)(hash r \<mapsto> destination_path)\<rparr>)))))"

fun reorder_records ::
  "'fs os_api \<Rightarrow> file_row list \<Rightarrow> 'fs reorder_state \<Rightarrow> string option \<times> 'fs reorder_state" where
  "reorder_records os [] st = (None, st)"
| "reorder_records os (r # rest) st =
     (case reorder_record os r st of
        (Some exn, st') \<Rightarrow> (Some exn, st')
      | (None, st') \<Rightarrow> reorder_records os rest st')"

text \<open>The whole script on a table and a disk: the closing line is logged after the loop.\<close>

definition reorder :: "'fs os_api \<Rightarrow> files_table \<Rightarrow> 'fs \<Rightarrow> string option \<times> 'fs reorder_state" where
  "reorder os file_records d =
     (case reorder_records os file_records
             \<lparr>disk = d, moved_files = Map.empty, reorder_log = []\<rparr> of
        (Some exn, st) \<Rightarrow> (Some exn, st)
      | (None, st) \<Rightarrow> (None, st\<lparr>reorder_log := reorder_log st @ [Completed]\<rparr>))"

section \<open>Properties the specification names\<close>

text \<open>
  First seen wins: a row that follows a row of the same hash is flagged a duplicate, so
  among the rows of one hash only the earliest can carry \<open>duplicate = 0\<close>.
\<close>

definition first_seen_wins :: "files_table \<Rightarrow> bool" where
  "first_seen_wins tbl =
     (\<forall>j < length tbl. \<forall>i < j. hash (tbl ! i) = hash (tbl ! j) \<longrightarrow> duplicate (tbl ! j) \<noteq> 0)"

text \<open>The rows of a hash that are not flagged.\<close>

definition unflagged :: "files_table \<Rightarrow> string \<Rightarrow> file_row list" where
  "unflagged tbl h = filter (\<lambda>r. hash r = h \<and> duplicate r = 0) tbl"

text \<open>
  The loop body of the specification's variant without the in-memory set: the flag is
  decided by the lookup in the table alone.
\<close>

definition store_file_catalog_only ::
  "world \<Rightarrow> string \<Rightarrow> script_state \<Rightarrow> error + script_state" where
  "store_file_catalog_only w file s0 =
     (case hash_file w file of
        Inl e \<Rightarrow> Inl e
      | Inr file_hash \<Rightarrow>
          (case get_file_info w (clock_reads s0) file of
             Inl e \<Rightarrow> Inl e
           | Inr info \<Rightarrow>
               (let s = s0\<lparr>clock_reads := Suc (clock_reads s0)\<rparr>
                in if path_exists (files s) file then
                     Inr (s\<lparr>logged := logged s @ [Skipped_same_path file file_hash]\<rparr>)
                   else if select_hash (files s) file_hash \<noteq> None then
                     Inr (insert_file_info s (file_info_row file_hash file info 1))
                   else
                     Inr (insert_file_info s (file_info_row file_hash file info 0)))))"

fun store_files_catalog_only ::
  "world \<Rightarrow> string list \<Rightarrow> script_state \<Rightarrow> error option \<times> script_state" where
  "store_files_catalog_only w [] s = (None, s)"
| "store_files_catalog_only w (file # rest) s =
     (case store_file_catalog_only w file s of
        Inl e \<Rightarrow> (Some e, s)
      | Inr s' \<Rightarrow> store_files_catalog_only w rest s')"

text \<open>
  The extended ISO 8601 form of a date and time, \<^verbatim>\<open>YYYY-MM-DDTHH:MM:SS\<close> with an optional
  fraction of six digits. In a pattern \<^verbatim>\<open>D\<close> stands for a digit.
\<close>

definition is_digit :: "char \<Rightarrow> bool" where
  "is_digit c = (c \<in> set ''0123456789'')"

fun matches :: "string \<Rightarrow> string \<Rightarrow> bool" where
  "matches [] [] = True"
| "matches (p # ps) (c # cs) = ((if p = CHR ''D'' then is_digit c else c = p) \<and> matches ps cs)"
| "matches _ _ = False"

definition is_iso8601 :: "string \<Rightarrow> bool" where
  "is_iso8601 s =
     (matches ''DDDD-DD-DDTDD:DD:DD'' s \<or> matches ''DDDD-DD-DDTDD:DD:DD.DDDDDD'' s)"

text \<open>The hashes of the rows the log records as moved, in the order of the rows.\<close>

fun is_Moved :: "log_record \<Rightarrow> bool" where
  "is_Moved (Moved src dst) = True"
| "is_Moved _ = False"

definition moved_hashes :: "file_row list \<Rightarrow> log_record list \<Rightarrow> string list" where
  "moved_hashes rs lg = map (\<lambda>x. hash (fst x)) (filter (\<lambda>x. is_Moved (snd x)) (zip rs lg))"

section \<open>Example inputs\<close>

text \<open>
  A disk with two byte-identical pictures, a third picture, a picture whose EXIF data
  carries the tag \<^verbatim>\<open>DateTimeOriginal\<close> in the form the EXIF standard prescribes, and
  a clip; a file of any other name cannot be opened.
\<close>

definition noon :: datetime where
  "noon = \<lparr>year = 2020, month = 6, day = 1, hour = 12, minute = 0, second = 0,
            microsecond = 0\<rparr>"

definition example_world :: world where
  "example_world =
     \<lparr>sha1_hexdigest =
        [''a.jpg'' \<mapsto> ''X'', ''b.jpg'' \<mapsto> ''X'', ''c.png'' \<mapsto> ''Y'', ''exif.jpg'' \<mapsto> ''Z'',
         ''clip.mp4'' \<mapsto> ''X''],
      stat_file = (\<lambda>p. Some (1, noon)),
      getexif =
        (\<lambda>p. if p = ''exif.jpg''
             then Exif_Data [(271, ''Canon''), (36867, ''2020:06:01 12:00:00'')]
             else Exif_None),
      video_metadata = (\<lambda>p. Video_No_Parser),
      clock = (\<lambda>n. noon)\<rparr>"

definition empty_state :: script_state where
  "empty_state = \<lparr>files = [], clock_reads = 0, logged = []\<rparr>"

definition example_row :: "string \<Rightarrow> string \<Rightarrow> int \<Rightarrow> file_row" where
  "example_row h p dup =
     \<lparr>hash = h, path = p, size_bytes = 1, date_taken = ''2020-06-01T12:00:00'',
      date_saved = ''2020-06-01T12:00:00'', duplicate = dup\<rparr>"

text \<open>
  An operating system over the list of the files present: creating a directory always
  succeeds, and a move succeeds when the source is present and is not \<^verbatim>\<open>locked.jpg\<close>.
\<close>

definition example_os :: "string list os_api" where
  "example_os =
     \<lparr>makedirs = (\<lambda>d dir. (None, d)),
      move = (\<lambda>d src dst.
                if src \<in> set d \<and> src \<noteq> ''locked.jpg'' then (None, dst # remove1 src d)
                else (Some ''cannot move'', d)),
      path_join = (\<lambda>a b. a @ ''/'' @ b)\<rparr>"

text \<open>
  A table of four rows, three of one hash and one of a path that is neither a picture
  nor a clip, and the disk the rows are on.
\<close>

definition example_table :: files_table where
  "example_table =
     [example_row ''X'' ''locked.jpg'' 0, example_row ''X'' ''a.jpg'' 1,
      example_row ''X'' ''b.jpg'' 1, example_row ''W'' ''notes.txt'' 0]"

definition example_disk :: "string list" where
  "example_disk = [''locked.jpg'', ''a.jpg'', ''b.jpg'', ''notes.txt'']"

section \<open>Lemmas\<close>

subsection \<open>Evaluating the examples\<close>

lemma zero_padded_2: "zero_padded 2 n = [digit_char (n div 10), digit_char n]"
proof -
  have "zero_padded (Suc (Suc 0)) n = [digit_char (n div 10), digit_char n]" by simp
  then show ?thesis by (simp only: numeral_2_eq_2)
qed

lemma zero_padded_4:
  "zero_padded 4 n =
     [digit_char (n div 10 div 10 div 10), digit_char (n div 10 div 10),
      digit_char (n div 10), digit_char n]"
proof -
  have "zero_padded (Suc (Suc (Suc (Suc 0)))) n =
     [digit_char (n div 10 div 10 div 10), digit_char (n div 10 div 10),
      digit_char (n div 10), digit_char n]"
    by simp
  moreover have "(4::nat) = Suc (Suc (Suc (Suc 0)))" by simp
  ultimately show ?thesis by (simp only:)
qed

lemma isoformat_noon: "isoformat noon = ''2020-06-01T12:00:00''"
  by (simp add: isoformat_def noon_def zero_padded_2 zero_padded_4 digit_char_def)

lemma example_hash_file:
  "hash_file example_world ''a.jpg'' = Inr ''X''"
  "hash_file example_world ''b.jpg'' = Inr ''X''"
  "hash_file example_world ''c.png'' = Inr ''Y''"
  "hash_file example_world ''exif.jpg'' = Inr ''Z''"
  "hash_file example_world ''clip.mp4'' = Inr ''X''"
  "hash_file example_world ''locked.jpg'' = Inl (IOError ''locked.jpg'')"
  by (simp_all add: hash_file_def example_world_def)

lemma example_stat:
  "stat_file example_world p = Some (1, noon)"
  "clock example_world n = noon"
  by (simp_all add: example_world_def)

lemma example_getexif:
  "getexif example_world ''exif.jpg'' = Exif_Data [(271, ''Canon''), (36867, ''2020:06:01 12:00:00'')]"
  "p \<noteq> ''exif.jpg'' \<Longrightarrow> getexif example_world p = Exif_None"
  "video_metadata example_world p = Video_No_Parser"
  by (simp_all add: example_world_def)

lemma example_suffix:
  "lower (path_suffix ''a.jpg'') = ''.jpg''"
  "lower (path_suffix ''b.jpg'') = ''.jpg''"
  "lower (path_suffix ''c.png'') = ''.png''"
  "lower (path_suffix ''exif.jpg'') = ''.jpg''"
  "lower (path_suffix ''clip.mp4'') = ''.mp4''"
  "lower (path_suffix ''locked.jpg'') = ''.jpg''"
  "lower (path_suffix ''notes.txt'') = ''.txt''"
  by (simp_all add: path_suffix_def path_name_def is_sep_def lower_def lower_char_def)

lemma example_embedded:
  "embedded_date_taken example_world ''a.jpg'' = None"
  "embedded_date_taken example_world ''b.jpg'' = None"
  "embedded_date_taken example_world ''c.png'' = None"
  "embedded_date_taken example_world ''clip.mp4'' = None"
  "embedded_date_taken example_world ''exif.jpg'' = Some ''2020:06:01 12:00:00''"
  by (simp_all add: embedded_date_taken_def example_suffix example_getexif
      IMAGE_EXTENSIONS_def VIDEO_EXTENSIONS_def exif_date_time_original_def)

lemma example_info:
  "get_file_info example_world n ''a.jpg'' = Inr (1, ''2020-06-01T12:00:00'', ''2020-06-01T12:00:00'')"
  "get_file_info example_world n ''b.jpg'' = Inr (1, ''2020-06-01T12:00:00'', ''2020-06-01T12:00:00'')"
  "get_file_info example_world n ''c.png'' = Inr (1, ''2020-06-01T12:00:00'', ''2020-06-01T12:00:00'')"
  "get_file_info example_world n ''clip.mp4'' = Inr (1, ''2020-06-01T12:00:00'', ''2020-06-01T12:00:00'')"
  "get_file_info example_world n ''exif.jpg'' = Inr (1, ''2020:06:01 12:00:00'', ''2020-06-01T12:00:00'')"
  by (simp_all add: get_file_info_def example_embedded example_stat isoformat_noon)

lemma example_info_fm:
  "get_file_info_fm example_world n p = Inr (1, ''2020-06-01T12:00:00'', ''2020-06-01T12:00:00'')"
  by (simp add: get_file_info_fm_def example_stat isoformat_noon)

lemmas example_simps =
  example_hash_file example_info example_info_fm store_file_def store_file_fm_def
  path_exists_def select_hash_def insert_file_info_def file_info_row_def example_row_def
  empty_state_def Let_def

lemma example_scan:
  "find_duplicates_and_store example_world [''a.jpg'', ''b.jpg'', ''c.png''] empty_state =
     (None, \<lparr>files = [example_row ''X'' ''a.jpg'' 0, example_row ''X'' ''b.jpg'' 1,
                       example_row ''Y'' ''c.png'' 0],
             clock_reads = 3, logged = []\<rparr>)"
  by (simp add: find_duplicates_and_store_def example_simps)

subsection \<open>The queries\<close>

lemma select_hash_None: "select_hash tbl h = None \<longleftrightarrow> (\<forall>r \<in> set tbl. hash r \<noteq> h)"
  by (auto simp: select_hash_def find_None_iff)

lemma path_exists_iff: "path_exists tbl p \<longleftrightarrow> (\<exists>r \<in> set tbl. path r = p)"
  by (auto simp: path_exists_def filter_empty_conv)

lemma hash_file_Inr: "hash_file w f = Inr h \<longleftrightarrow> sha1_hexdigest w f = Some h"
  by (simp add: hash_file_def split: option.splits)

lemma hash_file_Inl: "hash_file w f = Inl e \<longleftrightarrow> sha1_hexdigest w f = None \<and> e = IOError f"
  by (auto simp: hash_file_def split: option.splits)

lemma get_file_info_Inl:
  "get_file_info w n f = Inl e \<longleftrightarrow> stat_file w f = None \<and> e = OSError f"
  by (auto simp: get_file_info_def split: option.splits)

subsection \<open>First seen wins\<close>

lemma first_seen_wins_snoc:
  "first_seen_wins (tbl @ [r]) \<longleftrightarrow>
     first_seen_wins tbl \<and> ((\<exists>x \<in> set tbl. hash x = hash r) \<longrightarrow> duplicate r \<noteq> 0)"
proof
  assume a: "first_seen_wins (tbl @ [r])"
  have "first_seen_wins tbl"
    unfolding first_seen_wins_def
  proof (intro allI impI)
    fix j i assume "j < length tbl" "i < j" "hash (tbl ! i) = hash (tbl ! j)"
    with a[unfolded first_seen_wins_def, rule_format, of j i]
    show "duplicate (tbl ! j) \<noteq> 0" by (simp add: nth_append)
  qed
  moreover have "duplicate r \<noteq> 0" if "x \<in> set tbl" "hash x = hash r" for x
  proof -
    from that obtain i where "i < length tbl" "tbl ! i = x" by (auto simp: in_set_conv_nth)
    with a[unfolded first_seen_wins_def, rule_format, of "length tbl" i] that
    show ?thesis by (simp add: nth_append)
  qed
  ultimately show "first_seen_wins tbl \<and> ((\<exists>x \<in> set tbl. hash x = hash r) \<longrightarrow> duplicate r \<noteq> 0)"
    by blast
next
  assume a: "first_seen_wins tbl \<and> ((\<exists>x \<in> set tbl. hash x = hash r) \<longrightarrow> duplicate r \<noteq> 0)"
  show "first_seen_wins (tbl @ [r])"
    unfolding first_seen_wins_def
  proof (intro allI impI)
    fix j i assume h: "j < length (tbl @ [r])" "i < j" "hash ((tbl @ [r]) ! i) = hash ((tbl @ [r]) ! j)"
    show "duplicate ((tbl @ [r]) ! j) \<noteq> 0"
    proof (cases "j < length tbl")
      case True
      with h a show ?thesis by (simp add: nth_append first_seen_wins_def)
    next
      case False
      with h have j: "j = length tbl" by simp
      with h have "tbl ! i \<in> set tbl" "hash (tbl ! i) = hash r" by (simp_all add: nth_append)
      with a j show ?thesis by auto
    qed
  qed
qed

lemma unflagged_snoc:
  "unflagged (tbl @ [r]) h = unflagged tbl h @ (if hash r = h \<and> duplicate r = 0 then [r] else [])"
  by (simp add: unflagged_def)

lemma unflagged_Nil_conv: "unflagged tbl h = [] \<longleftrightarrow> (\<forall>r \<in> set tbl. hash r = h \<longrightarrow> duplicate r \<noteq> 0)"
  by (auto simp: unflagged_def filter_empty_conv)

lemma first_seen_wins_unflagged: "first_seen_wins tbl \<Longrightarrow> length (unflagged tbl h) \<le> 1"
proof (induction tbl rule: rev_induct)
  case Nil
  then show ?case by (simp add: unflagged_def)
next
  case (snoc r tbl)
  then have fw: "first_seen_wins tbl" and r: "(\<exists>x \<in> set tbl. hash x = hash r) \<longrightarrow> duplicate r \<noteq> 0"
    by (simp_all add: first_seen_wins_snoc)
  show ?case
  proof (cases "hash r = h \<and> duplicate r = 0")
    case True
    with r have "\<forall>x \<in> set tbl. hash x \<noteq> h" by auto
    then have "unflagged tbl h = []" by (auto simp: unflagged_Nil_conv)
    with True show ?thesis by (simp add: unflagged_snoc)
  next
    case False
    with snoc.IH[OF fw] show ?thesis by (auto simp: unflagged_snoc)
  qed
qed

subsection \<open>One iteration of the scan\<close>

text \<open>The exception an iteration raises depends on the file alone.\<close>

lemma store_file_Inl:
  "store_file w f st = Inl e \<longleftrightarrow>
     (sha1_hexdigest w f = None \<and> e = IOError f) \<or>
     (sha1_hexdigest w f \<noteq> None \<and> stat_file w f = None \<and> e = OSError f)"
proof (cases "sha1_hexdigest w f")
  case None
  then show ?thesis by (auto simp: store_file_def hash_file_def)
next
  case (Some h)
  show ?thesis
  proof (cases "stat_file w f")
    case None
    with Some show ?thesis by (auto simp: store_file_def hash_file_def get_file_info_def)
  next
    case (Some a)
    with \<open>sha1_hexdigest w f = Some h\<close> show ?thesis
      by (auto simp: store_file_def hash_file_def get_file_info_def Let_def split: prod.splits)
  qed
qed

lemma store_file_skip:
  assumes "path_exists (files (fst st)) f" "store_file w f st = Inr st'"
  shows "files (fst st') = files (fst st) \<and> snd st' = snd st"
  using assms by (auto simp: store_file_def Let_def split: sum.splits)

lemma store_file_files:
  assumes "store_file w f st = Inr st'"
  shows "files (fst st') = files (fst st) \<or>
         (\<exists>r. files (fst st') = files (fst st) @ [r] \<and> path r = f \<and> \<not> path_exists (files (fst st)) f)"
  using assms
  by (auto simp: store_file_def Let_def insert_file_info_def file_info_row_def
      split: sum.splits if_splits)

lemma store_file_path_exists:
  assumes "store_file w f st = Inr st'"
  shows "path_exists (files (fst st')) f"
  using assms
  by (auto simp: store_file_def Let_def insert_file_info_def file_info_row_def path_exists_iff
      split: sum.splits if_splits)

lemma store_file_first_seen_wins:
  assumes "store_file w f st = Inr st'" "first_seen_wins (files (fst st))"
  shows "first_seen_wins (files (fst st'))"
  using assms
  by (auto simp: store_file_def Let_def insert_file_info_def file_info_row_def
      first_seen_wins_snoc select_hash_None split: sum.splits if_splits)

lemma store_file_distinct:
  assumes "store_file w f st = Inr st'" "distinct (map path (files (fst st)))"
  shows "distinct (map path (files (fst st')))"
proof -
  from store_file_files[OF assms(1)]
  consider "files (fst st') = files (fst st)"
    | r where "files (fst st') = files (fst st) @ [r]" "path r = f" "\<not> path_exists (files (fst st)) f"
    by blast
  then show ?thesis
  proof cases
    case 1
    with assms(2) show ?thesis by simp
  next
    case 2
    then have "path r \<notin> path ` set (files (fst st))" by (auto simp: path_exists_iff)
    with 2 assms(2) show ?thesis by simp
  qed
qed

subsection \<open>The loop of the scan\<close>

lemma store_files_append:
  "store_files w (pre @ post) st =
     (case store_files w pre st of
        (Some e, st') \<Rightarrow> (Some e, st')
      | (None, st') \<Rightarrow> store_files w post st')"
  by (induction pre arbitrary: st) (auto split: sum.splits)

lemma store_files_grows:
  "store_files w fs st = (e, st') \<Longrightarrow> \<exists>new. files (fst st') = files (fst st) @ new"
proof (induction fs arbitrary: st)
  case Nil
  then show ?case by simp
next
  case (Cons f fs)
  show ?case
  proof (cases "store_file w f st")
    case (Inl e0)
    with Cons.prems show ?thesis by simp
  next
    case (Inr st1)
    with Cons.prems have "store_files w fs st1 = (e, st')" by simp
    from Cons.IH[OF this] obtain new where "files (fst st') = files (fst st1) @ new" ..
    with store_file_files[OF Inr] show ?thesis by auto
  qed
qed

lemma store_files_first_seen_wins:
  "first_seen_wins (files (fst st)) \<Longrightarrow> first_seen_wins (files (fst (snd (store_files w fs st))))"
proof (induction fs arbitrary: st)
  case Nil
  then show ?case by simp
next
  case (Cons f fs)
  show ?case
  proof (cases "store_file w f st")
    case (Inl e0)
    with Cons.prems show ?thesis by simp
  next
    case (Inr st1)
    from store_file_first_seen_wins[OF Inr Cons.prems] have "first_seen_wins (files (fst st1))" .
    from Cons.IH[OF this] Inr show ?thesis by simp
  qed
qed

lemma store_files_distinct:
  "distinct (map path (files (fst st))) \<Longrightarrow>
   distinct (map path (files (fst (snd (store_files w fs st)))))"
proof (induction fs arbitrary: st)
  case Nil
  then show ?case by simp
next
  case (Cons f fs)
  show ?case
  proof (cases "store_file w f st")
    case (Inl e0)
    with Cons.prems show ?thesis by simp
  next
    case (Inr st1)
    from store_file_distinct[OF Inr Cons.prems] have "distinct (map path (files (fst st1)))" .
    from Cons.IH[OF this] Inr show ?thesis by simp
  qed
qed

text \<open>
  A second pass over the same files, from any state whose table holds the paths the
  first pass left: it ends the way the first did and inserts nothing.
\<close>

lemma store_files_again:
  assumes "store_files w fs st = (e, st')"
    and "\<forall>p. path_exists (files (fst st')) p \<longrightarrow> path_exists (files (fst st2)) p"
  shows "fst (store_files w fs st2) = e \<and>
         files (fst (snd (store_files w fs st2))) = files (fst st2)"
  using assms
proof (induction fs arbitrary: st st2)
  case Nil
  then show ?case by simp
next
  case (Cons f fs)
  show ?case
  proof (cases "store_file w f st")
    case (Inl e0)
    then have "store_file w f st2 = Inl e0" by (simp add: store_file_Inl)
    with Inl Cons.prems show ?thesis by simp
  next
    case (Inr st1)
    with Cons.prems have rest: "store_files w fs st1 = (e, st')" by simp
    from store_files_grows[OF rest] store_file_path_exists[OF Inr]
    have "path_exists (files (fst st')) f" by (auto simp: path_exists_iff)
    with Cons.prems have ex2: "path_exists (files (fst st2)) f" by simp
    have "\<not> (\<exists>e0. store_file w f st2 = Inl e0)"
      using Inr store_file_Inl[of w f st] store_file_Inl[of w f st2] by auto
    then obtain st3 where s3: "store_file w f st2 = Inr st3" by (cases "store_file w f st2") auto
    from store_file_skip[OF ex2 s3] have f3: "files (fst st3) = files (fst st2)" by simp
    with Cons.prems have "\<forall>p. path_exists (files (fst st')) p \<longrightarrow> path_exists (files (fst st3)) p"
      by simp
    from Cons.IH[OF rest this] s3 f3 show ?thesis by simp
  qed
qed

lemma find_duplicates_and_store_conv:
  "find_duplicates_and_store w fs s =
     (fst (store_files w fs (s, Map.empty)), fst (snd (store_files w fs (s, Map.empty))))"
  by (simp add: find_duplicates_and_store_def split: prod.splits)

subsection \<open>The loop of findmediafiles.py\<close>

lemma store_file_fm_invariant:
  assumes step: "store_file_fm w f st = Inr st1"
    and fw: "first_seen_wins (files (fst st))"
    and seen: "\<forall>g \<in> set (f # fs). \<forall>r \<in> set (files (fst st)).
                 sha1_hexdigest w g = Some (hash r) \<longrightarrow> snd st (hash r) \<noteq> None"
  shows "first_seen_wins (files (fst st1)) \<and>
         (\<forall>g \<in> set fs. \<forall>r \<in> set (files (fst st1)).
            sha1_hexdigest w g = Some (hash r) \<longrightarrow> snd st1 (hash r) \<noteq> None)"
proof -
  from step obtain h info where h: "sha1_hexdigest w f = Some h"
    and st1: "st1 = (if snd st h \<noteq> None
                then (insert_file_info ((fst st)\<lparr>clock_reads := Suc (clock_reads (fst st))\<rparr>)
                        (file_info_row h f info 1), snd st)
                else (insert_file_info ((fst st)\<lparr>clock_reads := Suc (clock_reads (fst st))\<rparr>)
                        (file_info_row h f info 0), (snd st)(h \<mapsto> h)))"
    by (auto simp: store_file_fm_def Let_def hash_file_Inr split: sum.splits if_splits)
  from seen h have old: "\<forall>r \<in> set (files (fst st)). hash r = h \<longrightarrow> snd st h \<noteq> None"
    by auto
  show ?thesis
  proof (cases "snd st h \<noteq> None")
    case True
    with st1 have eq: "files (fst st1) = files (fst st) @ [file_info_row h f info 1]"
      "snd st1 = snd st"
      by (simp_all add: insert_file_info_def)
    have "first_seen_wins (files (fst st1))"
      using fw by (simp add: eq first_seen_wins_snoc file_info_row_def)
    moreover have "\<forall>g \<in> set fs. \<forall>r \<in> set (files (fst st1)).
            sha1_hexdigest w g = Some (hash r) \<longrightarrow> snd st1 (hash r) \<noteq> None"
      using seen True by (auto simp: eq file_info_row_def)
    ultimately show ?thesis by blast
  next
    case False
    with st1 have eq: "files (fst st1) = files (fst st) @ [file_info_row h f info 0]"
      "snd st1 = (snd st)(h \<mapsto> h)"
      by (simp_all add: insert_file_info_def)
    from old False have "\<forall>r \<in> set (files (fst st)). hash r \<noteq> h" by blast
    then have "first_seen_wins (files (fst st1))"
      using fw by (auto simp: eq first_seen_wins_snoc file_info_row_def)
    moreover have "\<forall>g \<in> set fs. \<forall>r \<in> set (files (fst st1)).
            sha1_hexdigest w g = Some (hash r) \<longrightarrow> snd st1 (hash r) \<noteq> None"
      using seen by (auto simp: eq file_info_row_def)
    ultimately show ?thesis by blast
  qed
qed

lemma store_files_fm_first_seen_wins:
  assumes "first_seen_wins (files (fst st))"
    and "\<forall>g \<in> set fs. \<forall>r \<in> set (files (fst st)).
           sha1_hexdigest w g = Some (hash r) \<longrightarrow> snd st (hash r) \<noteq> None"
  shows "first_seen_wins (files (fst (snd (store_files_fm w fs st))))"
  using assms
proof (induction fs arbitrary: st)
  case Nil
  then show ?case by simp
next
  case (Cons f fs)
  show ?case
  proof (cases "store_file_fm w f st")
    case (Inl e0)
    with Cons.prems show ?thesis by simp
  next
    case (Inr st1)
    from store_file_fm_invariant[OF Inr Cons.prems]
    have "first_seen_wins (files (fst st1))"
      and "\<forall>g \<in> set fs. \<forall>r \<in> set (files (fst st1)).
            sha1_hexdigest w g = Some (hash r) \<longrightarrow> snd st1 (hash r) \<noteq> None"
      by blast+
    from Cons.IH[OF this] Inr show ?thesis by simp
  qed
qed

lemma find_duplicates_and_store_fm_conv:
  "find_duplicates_and_store_fm w fs s =
     (fst (store_files_fm w fs (s, Map.empty)), fst (snd (store_files_fm w fs (s, Map.empty))))"
  by (simp add: find_duplicates_and_store_fm_def split: prod.splits)

subsection \<open>The scan without the in-memory set\<close>

lemma store_file_catalog_only_step:
  assumes inv: "\<forall>h. hs h \<noteq> None \<longrightarrow> (\<exists>r \<in> set (files s). hash r = h)"
  shows "(case store_file w f (s, hs) of
            Inl e \<Rightarrow> store_file_catalog_only w f s = Inl e
          | Inr st' \<Rightarrow> store_file_catalog_only w f s = Inr (fst st') \<and>
                (\<forall>h. snd st' h \<noteq> None \<longrightarrow> (\<exists>r \<in> set (files (fst st')). hash r = h)))"
proof (cases "hash_file w f")
  case (Inl e)
  then show ?thesis by (simp add: store_file_def store_file_catalog_only_def)
next
  case (Inr h)
  show ?thesis
  proof (cases "get_file_info w (clock_reads s) f")
    case (Inl e)
    with Inr show ?thesis by (simp add: store_file_def store_file_catalog_only_def)
  next
    case info: (Inr info)
    from inv have "hs h \<noteq> None \<Longrightarrow> select_hash (files s) h \<noteq> None"
      by (auto simp: select_hash_None)
    with Inr info inv show ?thesis
      by (auto simp: store_file_def store_file_catalog_only_def Let_def insert_file_info_def
          file_info_row_def)
  qed
qed

lemma store_files_catalog_only_eq:
  assumes "\<forall>h. hs h \<noteq> None \<longrightarrow> (\<exists>r \<in> set (files s). hash r = h)"
  shows "store_files_catalog_only w fs s =
           (fst (store_files w fs (s, hs)), fst (snd (store_files w fs (s, hs)))) \<and>
         (\<forall>h. snd (snd (store_files w fs (s, hs))) h \<noteq> None \<longrightarrow>
            (\<exists>r \<in> set (files (fst (snd (store_files w fs (s, hs))))). hash r = h))"
  using assms
proof (induction fs arbitrary: s hs)
  case Nil
  then show ?case by simp
next
  case (Cons f fs)
  show ?case
  proof (cases "store_file w f (s, hs)")
    case (Inl e)
    with store_file_catalog_only_step[OF Cons.prems, of w f] Cons.prems show ?thesis by simp
  next
    case (Inr st')
    obtain s' hs' where st': "st' = (s', hs')" by (cases st')
    from store_file_catalog_only_step[OF Cons.prems, of w f] Inr st'
    have c: "store_file_catalog_only w f s = Inr s'"
      and i: "\<forall>h. hs' h \<noteq> None \<longrightarrow> (\<exists>r \<in> set (files s'). hash r = h)"
      by simp_all
    from Cons.IH[OF i] Inr st' c show ?thesis by simp
  qed
qed

subsection \<open>One iteration of the reorganisation\<close>

lemma moved_hashes_simps:
  "moved_hashes [] lg = []"
  "moved_hashes rs [] = []"
  "moved_hashes (r # rs) (x # lg) = (if is_Moved x then [hash r] else []) @ moved_hashes rs lg"
  by (simp_all add: moved_hashes_def)

lemma reorder_record_skip:
  "moved_files st (hash r) \<noteq> None \<Longrightarrow>
   reorder_record os r st =
     (None, st\<lparr>reorder_log := reorder_log st @ [Skipped_duplicate (path r) (hash r)]\<rparr>)"
  by (simp add: reorder_record_def)

text \<open>What an iteration leaves: an exception and nothing logged, or one more record.\<close>

lemma reorder_record_cases:
  assumes "reorder_record os r st = (e, st')"
  shows "(e \<noteq> None \<and> reorder_log st' = reorder_log st \<and> moved_files st' = moved_files st) \<or>
         (e = None \<and> (\<exists>x. reorder_log st' = reorder_log st @ [x] \<and>
            (x = Skipped_duplicate (path r) (hash r) \<longleftrightarrow> moved_files st (hash r) \<noteq> None) \<and>
            (is_Moved x \<longrightarrow> moved_files st (hash r) = None) \<and>
            dom (moved_files st') = dom (moved_files st) \<union> (if is_Moved x then {hash r} else {})))"
proof (cases "moved_files st (hash r) \<noteq> None")
  case True
  with assms show ?thesis by (auto simp: reorder_record_skip)
next
  case False
  then have n: "moved_files st (hash r) = None" by simp
  show ?thesis
  proof (cases "base_dir_for os (path r)")
    case None
    with assms n show ?thesis by (auto simp: reorder_record_def)
  next
    case (Some b)
    obtain e1 d1 where mk: "makedirs os (disk st) (path_join os b (take 4 (date_taken r))) = (e1, d1)"
      by (cases "makedirs os (disk st) (path_join os b (take 4 (date_taken r)))")
    show ?thesis
    proof (cases e1)
      case (Some exn)
      with assms n mk \<open>base_dir_for os (path r) = Some b\<close> show ?thesis
        by (auto simp: reorder_record_def Let_def)
    next
      case None
      obtain e2 d2 where mv:
        "move os d1 (path r)
           (path_join os (path_join os b (take 4 (date_taken r))) (path_name (path r))) = (e2, d2)"
        by (cases "move os d1 (path r)
           (path_join os (path_join os b (take 4 (date_taken r))) (path_name (path r)))")
      from assms n mk mv None \<open>base_dir_for os (path r) = Some b\<close> show ?thesis
        by (cases e2) (auto simp: reorder_record_def Let_def)
    qed
  qed
qed

subsection \<open>The loop of the reorganisation\<close>

lemma reorder_records_log:
  assumes "reorder_records os rs st = (e, st')"
  shows "\<exists>new. reorder_log st' = reorder_log st @ new \<and>
           length new \<le> length rs \<and> (e = None \<longrightarrow> length new = length rs) \<and>
           dom (moved_files st') = dom (moved_files st) \<union> set (moved_hashes rs new) \<and>
           distinct (moved_hashes rs new) \<and>
           set (moved_hashes rs new) \<inter> dom (moved_files st) = {} \<and>
           (\<forall>j < length new.
              new ! j = Skipped_duplicate (path (rs ! j)) (hash (rs ! j)) \<longleftrightarrow>
              hash (rs ! j) \<in> dom (moved_files st) \<union> set (moved_hashes (take j rs) (take j new)))"
  using assms
proof (induction rs arbitrary: st)
  case Nil
  then show ?case by (simp add: moved_hashes_simps)
next
  case (Cons r rs)
  obtain e0 st1 where step: "reorder_record os r st = (e0, st1)"
    by (cases "reorder_record os r st")
  from reorder_record_cases[OF step]
  consider (raised) "e0 \<noteq> None" "reorder_log st1 = reorder_log st" "moved_files st1 = moved_files st"
    | (logged) x where "e0 = None" "reorder_log st1 = reorder_log st @ [x]"
        "x = Skipped_duplicate (path r) (hash r) \<longleftrightarrow> moved_files st (hash r) \<noteq> None"
        "is_Moved x \<longrightarrow> moved_files st (hash r) = None"
        "dom (moved_files st1) = dom (moved_files st) \<union> (if is_Moved x then {hash r} else {})"
    by blast
  then show ?case
  proof cases
    case raised
    with Cons.prems step have "st' = st1" "e \<noteq> None" by auto
    with raised show ?thesis
      by (intro exI[of _ "[]"]) (simp add: moved_hashes_simps)
  next
    case logged
    with Cons.prems step have rest: "reorder_records os rs st1 = (e, st')" by simp
    from Cons.IH[OF rest] obtain new where new:
      "reorder_log st' = reorder_log st1 @ new"
      "length new \<le> length rs" "e = None \<longrightarrow> length new = length rs"
      "dom (moved_files st') = dom (moved_files st1) \<union> set (moved_hashes rs new)"
      "distinct (moved_hashes rs new)"
      "set (moved_hashes rs new) \<inter> dom (moved_files st1) = {}"
      "\<forall>j < length new.
          new ! j = Skipped_duplicate (path (rs ! j)) (hash (rs ! j)) \<longleftrightarrow>
          hash (rs ! j) \<in> dom (moved_files st1) \<union> set (moved_hashes (take j rs) (take j new))"
      by blast
    have a: "reorder_log st' = reorder_log st @ (x # new)"
      using new(1) logged(2) by simp
    have b: "length (x # new) \<le> length (r # rs)" "e = None \<longrightarrow> length (x # new) = length (r # rs)"
      using new(2,3) by simp_all
    have c: "dom (moved_files st') = dom (moved_files st) \<union> set (moved_hashes (r # rs) (x # new))"
      using new(4) logged(5) by (auto simp: moved_hashes_simps)
    have d: "distinct (moved_hashes (r # rs) (x # new))"
      using new(5,6) logged(5) by (auto simp: moved_hashes_simps)
    have e: "set (moved_hashes (r # rs) (x # new)) \<inter> dom (moved_files st) = {}"
      using new(6) logged(4,5) by (auto simp: moved_hashes_simps)
    have f: "(x # new) ! j = Skipped_duplicate (path ((r # rs) ! j)) (hash ((r # rs) ! j)) \<longleftrightarrow>
              hash ((r # rs) ! j) \<in> dom (moved_files st) \<union>
                 set (moved_hashes (take j (r # rs)) (take j (x # new)))"
      if "j < length (x # new)" for j
    proof (cases j)
      case 0
      with logged(3) show ?thesis by (auto simp: moved_hashes_simps)
    next
      case (Suc k)
      with that have "k < length new" by simp
      with new(7) have "new ! k = Skipped_duplicate (path (rs ! k)) (hash (rs ! k)) \<longleftrightarrow>
          hash (rs ! k) \<in> dom (moved_files st1) \<union> set (moved_hashes (take k rs) (take k new))"
        by blast
      with Suc logged(5) show ?thesis by (auto simp: moved_hashes_simps)
    qed
    from a b c d e f show ?thesis by blast
  qed
qed

lemma moved_hashes_take_mem:
  "h \<in> set (moved_hashes (take j rs) (take j lg)) \<longleftrightarrow>
     (\<exists>i < j. i < length rs \<and> i < length lg \<and> is_Moved (lg ! i) \<and> hash (rs ! i) = h)"
proof
  assume "h \<in> set (moved_hashes (take j rs) (take j lg))"
  then obtain a b where ab: "(a, b) \<in> set (zip (take j rs) (take j lg))" "is_Moved b" "hash a = h"
    by (auto simp: moved_hashes_def)
  then obtain i where "take j rs ! i = a" "take j lg ! i = b" "i < length (take j rs)"
    "i < length (take j lg)"
    by (auto simp: in_set_zip)
  with ab show "\<exists>i < j. i < length rs \<and> i < length lg \<and> is_Moved (lg ! i) \<and> hash (rs ! i) = h"
    by (intro exI[of _ i]) auto
next
  assume "\<exists>i < j. i < length rs \<and> i < length lg \<and> is_Moved (lg ! i) \<and> hash (rs ! i) = h"
  then obtain i where i: "i < j" "i < length rs" "i < length lg" "is_Moved (lg ! i)" "hash (rs ! i) = h"
    by blast
  then have "(rs ! i, lg ! i) \<in> set (zip (take j rs) (take j lg))"
    by (auto simp: in_set_zip intro!: exI[of _ i])
  with i show "h \<in> set (moved_hashes (take j rs) (take j lg))"
    by (force simp: moved_hashes_def)
qed

lemma moved_hashes_Completed:
  "length new = length rs \<Longrightarrow> moved_hashes rs (new @ [Completed]) = moved_hashes rs new"
  by (simp add: moved_hashes_def zip_append2)

text \<open>The log of a whole run, row by row.\<close>

lemma reorder_log_rows:
  "\<exists>new. reorder_log (snd (reorder os tbl d)) =
           new @ (if fst (reorder os tbl d) = None then [Completed] else []) \<and>
         length new \<le> length tbl \<and>
         (fst (reorder os tbl d) = None \<longrightarrow> length new = length tbl) \<and>
         distinct (moved_hashes tbl new) \<and>
         (\<forall>j < length new.
            new ! j = Skipped_duplicate (path (tbl ! j)) (hash (tbl ! j)) \<longleftrightarrow>
            (\<exists>i < j. is_Moved (new ! i) \<and> hash (tbl ! i) = hash (tbl ! j)))"
proof -
  obtain e st' where run:
    "reorder_records os tbl \<lparr>disk = d, moved_files = Map.empty, reorder_log = []\<rparr> = (e, st')"
    by (cases "reorder_records os tbl \<lparr>disk = d, moved_files = Map.empty, reorder_log = []\<rparr>")
  from reorder_records_log[OF run] obtain new where new:
    "reorder_log st' = new" "length new \<le> length tbl" "e = None \<longrightarrow> length new = length tbl"
    "distinct (moved_hashes tbl new)"
    "\<forall>j < length new.
        new ! j = Skipped_duplicate (path (tbl ! j)) (hash (tbl ! j)) \<longleftrightarrow>
        hash (tbl ! j) \<in> set (moved_hashes (take j tbl) (take j new))"
    by auto
  have idx: "new ! j = Skipped_duplicate (path (tbl ! j)) (hash (tbl ! j)) \<longleftrightarrow>
            (\<exists>i < j. is_Moved (new ! i) \<and> hash (tbl ! i) = hash (tbl ! j))"
    if "j < length new" for j
  proof -
    from that new(2) have "i < j \<Longrightarrow> i < length tbl \<and> i < length new" for i by simp
    with new(5) that show ?thesis by (auto simp: moved_hashes_take_mem)
  qed
  have "reorder_log (snd (reorder os tbl d)) = new @ (if e = None then [Completed] else [])"
    "fst (reorder os tbl d) = e"
    using run new(1) by (auto simp: reorder_def split: option.splits)
  with new idx show ?thesis by (intro exI[of _ new]) simp
qed

lemma reorder_record_moved_files:
  assumes "reorder_record os r st = (e, st')"
  shows "moved_files st' = moved_files st \<or>
         (\<exists>dst. e = None \<and> reorder_log st' = reorder_log st @ [Moved (path r) dst] \<and>
            moved_files st' = (moved_files st)(hash r \<mapsto> dst))"
  using assms
  by (auto simp: reorder_record_def Let_def split: if_splits option.splits prod.splits)

lemma reorder_record_raises:
  assumes "reorder_record os r st = (Some exn, st')"
  shows "\<exists>d dir. fst (makedirs os d dir) = Some exn"
  using assms
  by (auto simp: reorder_record_def Let_def split: if_splits option.splits prod.splits)
    (metis fst_conv)+

lemma reorder_records_completes:
  assumes "\<forall>d dir. fst (makedirs os d dir) = None"
  shows "fst (reorder_records os rs st) = None"
proof (induction rs arbitrary: st)
  case Nil
  show ?case by simp
next
  case (Cons r rs)
  obtain e0 st1 where step: "reorder_record os r st = (e0, st1)"
    by (cases "reorder_record os r st")
  show ?case
  proof (cases e0)
    case None
    with step Cons.IH[of st1] show ?thesis by simp
  next
    case (Some exn)
    with step reorder_record_raises[of os r st exn st1] assms show ?thesis by auto
  qed
qed

text \<open>
  The log of a whole run read against the table: the closing line does not count, and a
  row is a skipped duplicate exactly when it follows a moved row of its hash.
\<close>

lemma reorder_log_against_table:
  "distinct (moved_hashes tbl (reorder_log (snd (reorder os tbl d)))) \<and>
   (\<forall>j. j < length tbl \<and> j < length (reorder_log (snd (reorder os tbl d))) \<longrightarrow>
      (reorder_log (snd (reorder os tbl d)) ! j =
         Skipped_duplicate (path (tbl ! j)) (hash (tbl ! j)) \<longleftrightarrow>
       (\<exists>i < j. is_Moved (reorder_log (snd (reorder os tbl d)) ! i) \<and>
          hash (tbl ! i) = hash (tbl ! j))))"
proof -
  define lg where "lg = reorder_log (snd (reorder os tbl d))"
  define e where "e = fst (reorder os tbl d)"
  from reorder_log_rows[of os tbl d, folded lg_def e_def] obtain new where all:
    "lg = new @ (if e = None then [Completed] else []) \<and>
     length new \<le> length tbl \<and>
     (e = None \<longrightarrow> length new = length tbl) \<and>
     distinct (moved_hashes tbl new) \<and>
     (\<forall>j < length new.
        new ! j = Skipped_duplicate (path (tbl ! j)) (hash (tbl ! j)) \<longleftrightarrow>
        (\<exists>i < j. is_Moved (new ! i) \<and> hash (tbl ! i) = hash (tbl ! j)))" ..
  then have n1: "lg = new @ (if e = None then [Completed] else [])"
    and n2: "length new \<le> length tbl"
    and n3: "e = None \<longrightarrow> length new = length tbl"
    and n4: "distinct (moved_hashes tbl new)"
    and n5: "\<forall>j < length new.
        new ! j = Skipped_duplicate (path (tbl ! j)) (hash (tbl ! j)) \<longleftrightarrow>
        (\<exists>i < j. is_Moved (new ! i) \<and> hash (tbl ! i) = hash (tbl ! j))"
    by (rule conjunct1, rule conjunct2[THEN conjunct1],
        rule conjunct2[THEN conjunct2, THEN conjunct1],
        rule conjunct2[THEN conjunct2, THEN conjunct2, THEN conjunct1],
        rule conjunct2[THEN conjunct2, THEN conjunct2, THEN conjunct2])
  have mh: "moved_hashes tbl lg = moved_hashes tbl new"
    using n1 n3 by (auto simp: moved_hashes_Completed)
  have below: "j < length new" if "j < length tbl" "j < length lg" for j
    using that n1 n3 by (auto split: if_splits)
  have nth: "lg ! i = new ! i" if "i < length new" for i
    using that n1 by (simp add: nth_append)
  have idx: "lg ! j = Skipped_duplicate (path (tbl ! j)) (hash (tbl ! j)) \<longleftrightarrow>
       (\<exists>i < j. is_Moved (lg ! i) \<and> hash (tbl ! i) = hash (tbl ! j))"
    if "j < length tbl" "j < length lg" for j
  proof -
    from below[OF that] have j: "j < length new" .
    then have "\<forall>i < j. lg ! i = new ! i" using nth by simp
    then have "(\<exists>i < j. is_Moved (lg ! i) \<and> hash (tbl ! i) = hash (tbl ! j)) \<longleftrightarrow>
               (\<exists>i < j. is_Moved (new ! i) \<and> hash (tbl ! i) = hash (tbl ! j))"
      by auto
    moreover from n5[rule_format, OF j]
    have "new ! j = Skipped_duplicate (path (tbl ! j)) (hash (tbl ! j)) \<longleftrightarrow>
          (\<exists>i < j. is_Moved (new ! i) \<and> hash (tbl ! i) = hash (tbl ! j))"
      .
    ultimately show ?thesis using nth[OF j] by simp
  qed
  have "distinct (moved_hashes tbl lg)" using n4 mh by simp
  with idx show ?thesis unfolding lg_def by blast
qed


lemma reorder_log_length:
  assumes "fst (reorder os tbl d) = None"
  shows "length (reorder_log (snd (reorder os tbl d))) = length tbl + 1"
proof -
  obtain e st' where r:
    "reorder_records os tbl \<lparr>disk = d, moved_files = Map.empty, reorder_log = []\<rparr> = (e, st')"
    by (cases "reorder_records os tbl \<lparr>disk = d, moved_files = Map.empty, reorder_log = []\<rparr>")
  with assms have e: "e = None" by (cases e) (simp_all add: reorder_def)
  from reorder_records_log[OF r] obtain new where
    "reorder_log st' = reorder_log \<lparr>disk = d, moved_files = Map.empty, reorder_log = []\<rparr> @ new \<and>
     length new \<le> length tbl \<and> (e = None \<longrightarrow> length new = length tbl)"
    by (elim exE conjE) (rule that, intro conjI)
  with e have "length (reorder_log st') = length tbl" by simp
  with r e show ?thesis by (simp add: reorder_def)
qed

lemma reorder_completes:
  assumes "\<forall>d dir. fst (makedirs os d dir) = None"
  shows "fst (reorder os tbl d0) = None"
proof -
  obtain e st' where r:
    "reorder_records os tbl \<lparr>disk = d0, moved_files = Map.empty, reorder_log = []\<rparr> = (e, st')"
    by (cases "reorder_records os tbl \<lparr>disk = d0, moved_files = Map.empty, reorder_log = []\<rparr>")
  with reorder_records_completes[OF assms, of tbl
      "\<lparr>disk = d0, moved_files = Map.empty, reorder_log = []\<rparr>"]
  have "e = None" by simp
  with r show ?thesis by (simp add: reorder_def)
qed

lemma example_rescan:
  "find_duplicates_and_store example_world [''a.jpg'', ''b.jpg'', ''c.png'']
     \<lparr>files = [example_row ''X'' ''a.jpg'' 0, example_row ''X'' ''b.jpg'' 1,
               example_row ''Y'' ''c.png'' 0],
      clock_reads = 3, logged = []\<rparr> =
     (None, \<lparr>files = [example_row ''X'' ''a.jpg'' 0, example_row ''X'' ''b.jpg'' 1,
                       example_row ''Y'' ''c.png'' 0],
             clock_reads = 6,
             logged = [Skipped_same_path ''a.jpg'' ''X'', Skipped_same_path ''b.jpg'' ''X'',
                       Skipped_same_path ''c.png'' ''Y'']\<rparr>)"
  by (simp add: find_duplicates_and_store_def example_simps)

lemma example_scan_fm:
  "find_duplicates_and_store_fm example_world [''a.jpg'', ''b.jpg'', ''c.png''] empty_state =
     (None, \<lparr>files = [example_row ''X'' ''a.jpg'' 0, example_row ''X'' ''b.jpg'' 1,
                       example_row ''Y'' ''c.png'' 0],
             clock_reads = 3, logged = []\<rparr>)"
  by (simp add: find_duplicates_and_store_fm_def example_simps)

lemma example_images_fm:
  "find_duplicates_and_store_fm example_world [''a.jpg''] empty_state =
     (None, \<lparr>files = [example_row ''X'' ''a.jpg'' 0], clock_reads = 1, logged = []\<rparr>)"
  by (simp add: find_duplicates_and_store_fm_def example_simps)

lemma example_videos_fm:
  "find_duplicates_and_store_fm example_world [''clip.mp4'']
     \<lparr>files = [example_row ''X'' ''a.jpg'' 0], clock_reads = 1, logged = []\<rparr> =
     (None, \<lparr>files = [example_row ''X'' ''a.jpg'' 0, example_row ''X'' ''clip.mp4'' 0],
             clock_reads = 2, logged = []\<rparr>)"
  by (simp add: find_duplicates_and_store_fm_def example_simps)

lemma example_images_again_fm:
  "find_duplicates_and_store_fm example_world [''a.jpg'']
     \<lparr>files = [example_row ''X'' ''a.jpg'' 0], clock_reads = 1, logged = []\<rparr> =
     (None, \<lparr>files = [example_row ''X'' ''a.jpg'' 0, example_row ''X'' ''a.jpg'' 0],
             clock_reads = 2, logged = []\<rparr>)"
  by (simp add: find_duplicates_and_store_fm_def example_simps)

lemma example_locked:
  "find_duplicates_and_store example_world [''locked.jpg'', ''a.jpg''] empty_state =
     (Some (IOError ''locked.jpg''), empty_state)"
  by (simp add: find_duplicates_and_store_def example_simps)

lemma example_after_locked:
  "find_duplicates_and_store example_world [''a.jpg'', ''locked.jpg'', ''c.png''] empty_state =
     (Some (IOError ''locked.jpg''),
      \<lparr>files = [example_row ''X'' ''a.jpg'' 0], clock_reads = 1, logged = []\<rparr>)"
  by (simp add: find_duplicates_and_store_def example_simps)

lemma first_seen_wins_example:
  "first_seen_wins []"
  "first_seen_wins [example_row ''X'' ''a.jpg'' 0, example_row ''X'' ''b.jpg'' 1,
                    example_row ''Y'' ''c.png'' 0]"
  "\<not> first_seen_wins [example_row ''X'' ''a.jpg'' 0, example_row ''X'' ''clip.mp4'' 0]"
  "\<not> first_seen_wins [example_row ''X'' ''a.jpg'' 0, example_row ''X'' ''clip.mp4'' 0,
                      example_row ''Y'' ''c.png'' 0]"
proof -
  show "first_seen_wins []" by (simp add: first_seen_wins_def)
  have "first_seen_wins ([] @ [example_row ''X'' ''a.jpg'' 0])"
    by (simp only: first_seen_wins_snoc) (simp add: first_seen_wins_def)
  then have a: "first_seen_wins [example_row ''X'' ''a.jpg'' 0]" by simp
  then have "first_seen_wins ([example_row ''X'' ''a.jpg'' 0] @ [example_row ''X'' ''b.jpg'' 1])"
    by (simp only: first_seen_wins_snoc) (simp add: example_row_def)
  then have "first_seen_wins (([example_row ''X'' ''a.jpg'' 0] @ [example_row ''X'' ''b.jpg'' 1])
      @ [example_row ''Y'' ''c.png'' 0])"
    by (simp only: first_seen_wins_snoc) (simp add: example_row_def)
  then show "first_seen_wins [example_row ''X'' ''a.jpg'' 0, example_row ''X'' ''b.jpg'' 1,
                    example_row ''Y'' ''c.png'' 0]" by simp
  have b: "\<not> first_seen_wins ([example_row ''X'' ''a.jpg'' 0] @ [example_row ''X'' ''clip.mp4'' 0])"
    by (simp only: first_seen_wins_snoc) (simp add: example_row_def)
  then show "\<not> first_seen_wins [example_row ''X'' ''a.jpg'' 0, example_row ''X'' ''clip.mp4'' 0]"
    by simp
  from b have "\<not> first_seen_wins (([example_row ''X'' ''a.jpg'' 0] @ [example_row ''X'' ''clip.mp4'' 0])
       @ [example_row ''Y'' ''c.png'' 0])"
    by (simp only: first_seen_wins_snoc) simp
  then show "\<not> first_seen_wins [example_row ''X'' ''a.jpg'' 0, example_row ''X'' ''clip.mp4'' 0,
                      example_row ''Y'' ''c.png'' 0]" by simp
qed

subsection \<open>Evaluating the example of the reorganisation\<close>

lemma example_base_dir:
  "base_dir_for example_os ''a.jpg'' = Some (BASE_PHOTO_DIR example_os)"
  "base_dir_for example_os ''b.jpg'' = Some (BASE_PHOTO_DIR example_os)"
  "base_dir_for example_os ''locked.jpg'' = Some (BASE_PHOTO_DIR example_os)"
  "base_dir_for example_os ''clip.mp4'' = Some (BASE_VIDEO_DIR example_os)"
  "base_dir_for example_os ''notes.txt'' = None"
  by (simp_all add: base_dir_for_def example_suffix IMAGE_EXTENSIONS_def VIDEO_EXTENSIONS_def)

lemma example_path_name:
  "path_name ''a.jpg'' = ''a.jpg''"
  "path_name ''b.jpg'' = ''b.jpg''"
  "path_name ''locked.jpg'' = ''locked.jpg''"
  by (simp_all add: path_name_def is_sep_def)

lemma example_os_calls:
  "makedirs example_os d dir = (None, d)"
  "move example_os d src dst =
     (if src \<in> set d \<and> src \<noteq> ''locked.jpg'' then (None, dst # remove1 src d)
      else (Some ''cannot move'', d))"
  "path_join example_os a b = a @ ''/'' @ b"
  by (simp_all add: example_os_def)

lemma example_reorder:
  "reorder example_os example_table example_disk =
   (None,
    \<lparr>disk = [BASE_PHOTO_DIR example_os @ ''/2020/a.jpg'', ''locked.jpg'', ''b.jpg'', ''notes.txt''],
     moved_files = [''X'' \<mapsto> BASE_PHOTO_DIR example_os @ ''/2020/a.jpg''],
     reorder_log =
       [Error_moving ''locked.jpg'' ''cannot move'',
        Moved ''a.jpg'' (BASE_PHOTO_DIR example_os @ ''/2020/a.jpg''),
        Skipped_duplicate ''b.jpg'' ''X'',
        Unknown_file_type ''notes.txt'',
        Completed]\<rparr>)"
  by (simp add: reorder_def reorder_record_def example_base_dir example_path_name
      example_os_calls example_row_def example_table_def example_disk_def Let_def)

lemma example_reorder_log:
  "reorder_log (snd (reorder example_os example_table example_disk)) =
     [Error_moving ''locked.jpg'' ''cannot move'',
      Moved ''a.jpg'' (BASE_PHOTO_DIR example_os @ ''/2020/a.jpg''),
      Skipped_duplicate ''b.jpg'' ''X'',
      Unknown_file_type ''notes.txt'',
      Completed]"
  unfolding example_reorder snd_conv by simp

lemma example_table_rows:
  "length example_table = 4"
  "example_table ! 0 = example_row ''X'' ''locked.jpg'' 0"
  "example_table ! 1 = example_row ''X'' ''a.jpg'' 1"
  "example_table ! Suc 0 = example_row ''X'' ''a.jpg'' 1"
  "example_table ! 2 = example_row ''X'' ''b.jpg'' 1"
  "hash (example_row h p n) = h"
  "path (example_row h p n) = p"
  by (simp_all add: example_table_def example_row_def)

section \<open>The claims about the scan\<close>

text \<open>
  C1, as amended. \<^verbatim>\<open>find_duplicates_and_store\<close> of \<^verbatim>\<open>getmediainfo.py\<close> keeps "first seen
  wins": when in the table it starts from every row that follows a row of the same hash
  is flagged, the same holds of the table it leaves, whether the call returns or an
  exception ends it; so at most one row of a hash is unflagged, and it is the earliest.
  The function of \<^verbatim>\<open>findmediafiles.py\<close> never looks a hash up in the table, and keeps the
  property only when no file it is given has the hash of a row already stored.
\<close>

theorem first_seen_wins_scan:
  assumes "first_seen_wins (files s)"
  shows "first_seen_wins (files (snd (find_duplicates_and_store w fs s))) \<and>
         (\<forall>h. length (unflagged (files (snd (find_duplicates_and_store w fs s))) h) \<le> 1) \<and>
         ((\<forall>f \<in> set fs. \<forall>r \<in> set (files s). sha1_hexdigest w f \<noteq> Some (hash r)) \<longrightarrow>
            first_seen_wins (files (snd (find_duplicates_and_store_fm w fs s))))"
proof -
  have a: "first_seen_wins (files (snd (find_duplicates_and_store w fs s)))"
    using store_files_first_seen_wins[of "(s, Map.empty)" w fs] assms
    by (simp add: find_duplicates_and_store_conv)
  have "first_seen_wins (files (snd (find_duplicates_and_store_fm w fs s)))"
    if "\<forall>f \<in> set fs. \<forall>r \<in> set (files s). sha1_hexdigest w f \<noteq> Some (hash r)"
    using store_files_fm_first_seen_wins[of "(s, Map.empty)" fs w] assms that
    by (simp add: find_duplicates_and_store_fm_conv)
  with a first_seen_wins_unflagged[OF a] show ?thesis by blast
qed

theorem first_seen_wins_scan_witness:
  "first_seen_wins (files empty_state) \<and>
   first_seen_wins [example_row ''X'' ''a.jpg'' 0, example_row ''X'' ''b.jpg'' 1,
                    example_row ''Y'' ''c.png'' 0] \<and>
   length (unflagged [example_row ''X'' ''a.jpg'' 0, example_row ''X'' ''b.jpg'' 1,
                      example_row ''Y'' ''c.png'' 0] ''X'') \<le> 1 \<and>
   first_seen_wins
     (files (snd (find_duplicates_and_store_fm example_world [''a.jpg'', ''b.jpg'', ''c.png'']
                    empty_state)))"
proof -
  have h: "first_seen_wins (files empty_state)"
    by (simp add: empty_state_def first_seen_wins_example)
  have "\<forall>f \<in> set [''a.jpg'', ''b.jpg'', ''c.png'']. \<forall>r \<in> set (files empty_state).
          sha1_hexdigest example_world f \<noteq> Some (hash r)"
    by (simp add: empty_state_def)
  with first_seen_wins_scan[OF h, of example_world "[''a.jpg'', ''b.jpg'', ''c.png'']"] h
  show ?thesis by (simp add: example_scan)
qed

text \<open>
  The two loops of \<^verbatim>\<open>findmediafiles.py\<close>, first the pictures and then the clips, on an
  empty table: the clip has the bytes of the picture and is stored unflagged after it.
  A later scan by \<^verbatim>\<open>getmediainfo.py\<close> leaves the two unflagged rows as they are.
\<close>

theorem first_seen_wins_scan_counterexample:
  "\<not> first_seen_wins
       (files (snd (find_duplicates_and_store_fm example_world [''clip.mp4'']
          (snd (find_duplicates_and_store_fm example_world [''a.jpg''] empty_state))))) \<and>
   \<not> first_seen_wins
       (files (snd (find_duplicates_and_store example_world [''c.png'']
          (snd (find_duplicates_and_store_fm example_world [''clip.mp4'']
             (snd (find_duplicates_and_store_fm example_world [''a.jpg''] empty_state)))))))"
proof -
  have "find_duplicates_and_store example_world [''c.png'']
          \<lparr>files = [example_row ''X'' ''a.jpg'' 0, example_row ''X'' ''clip.mp4'' 0],
           clock_reads = 2, logged = []\<rparr> =
        (None, \<lparr>files = [example_row ''X'' ''a.jpg'' 0, example_row ''X'' ''clip.mp4'' 0,
                          example_row ''Y'' ''c.png'' 0],
                clock_reads = 3, logged = []\<rparr>)"
    by (simp add: find_duplicates_and_store_def example_simps)
  then show ?thesis
    unfolding example_images_fm example_videos_fm snd_conv
    by (simp add: first_seen_wins_example)
qed

text \<open>
  C3, as amended. A second call of \<^verbatim>\<open>find_duplicates_and_store\<close> of \<^verbatim>\<open>getmediainfo.py\<close>
  on the same files and an unchanged disk ends the way the first call did and leaves the
  table as the first call left it; and a call on a table without a repeated path
  leaves no repeated path.
\<close>

theorem rescan_inserts_nothing:
  "fst (find_duplicates_and_store w fs (snd (find_duplicates_and_store w fs s))) =
     fst (find_duplicates_and_store w fs s) \<and>
   files (snd (find_duplicates_and_store w fs (snd (find_duplicates_and_store w fs s)))) =
     files (snd (find_duplicates_and_store w fs s)) \<and>
   (distinct (map path (files s)) \<longrightarrow>
      distinct (map path (files (snd (find_duplicates_and_store w fs s)))))"
proof -
  obtain e st' where run: "store_files w fs (s, Map.empty) = (e, st')"
    by (cases "store_files w fs (s, Map.empty)")
  have "\<forall>p. path_exists (files (fst st')) p \<longrightarrow> path_exists (files (fst (fst st', Map.empty))) p"
    by simp
  from store_files_again[OF run this] run
  have "fst (find_duplicates_and_store w fs (snd (find_duplicates_and_store w fs s))) =
          fst (find_duplicates_and_store w fs s)"
    "files (snd (find_duplicates_and_store w fs (snd (find_duplicates_and_store w fs s)))) =
       files (snd (find_duplicates_and_store w fs s))"
    by (simp_all add: find_duplicates_and_store_conv)
  moreover have "distinct (map path (files (snd (find_duplicates_and_store w fs s))))"
    if "distinct (map path (files s))"
    using store_files_distinct[of "(s, Map.empty)" w fs] that
    by (simp add: find_duplicates_and_store_conv)
  ultimately show ?thesis by blast
qed

theorem rescan_inserts_nothing_witness:
  "files (snd (find_duplicates_and_store example_world [''a.jpg'', ''b.jpg'', ''c.png'']
       \<lparr>files = [example_row ''X'' ''a.jpg'' 0, example_row ''X'' ''b.jpg'' 1,
                 example_row ''Y'' ''c.png'' 0],
        clock_reads = 3, logged = []\<rparr>)) =
     [example_row ''X'' ''a.jpg'' 0, example_row ''X'' ''b.jpg'' 1, example_row ''Y'' ''c.png'' 0] \<and>
   distinct (map path (files empty_state)) \<and>
   distinct (map path [example_row ''X'' ''a.jpg'' 0, example_row ''X'' ''b.jpg'' 1,
                       example_row ''Y'' ''c.png'' 0])"
  using rescan_inserts_nothing[of example_world "[''a.jpg'', ''b.jpg'', ''c.png'']" empty_state]
  by (simp add: example_scan) (simp add: empty_state_def)

text \<open>
  \<^verbatim>\<open>findmediafiles.py\<close> has no check of the path: its second run over the one picture
  stores the path a second time.
\<close>

theorem rescan_inserts_nothing_counterexample:
  "files (snd (find_duplicates_and_store_fm example_world [''a.jpg'']
     (snd (find_duplicates_and_store_fm example_world [''a.jpg''] empty_state)))) =
     [example_row ''X'' ''a.jpg'' 0, example_row ''X'' ''a.jpg'' 0] \<and>
   \<not> distinct (map path (files (snd (find_duplicates_and_store_fm example_world [''a.jpg'']
     (snd (find_duplicates_and_store_fm example_world [''a.jpg''] empty_state))))))"
  unfolding example_images_fm example_images_again_fm snd_conv
  by (simp add: example_row_def)

text \<open>
  C4. When an iteration of the scan inserts a row, the row is that of the file and of
  the digest of its bytes; its flag is 1 exactly when the table already holds a row of
  that hash or the hash is a key of \<^verbatim>\<open>hashes\<close>, and 0 otherwise; and the hash is added
  to \<^verbatim>\<open>hashes\<close> exactly when the flag is 0.
\<close>

theorem store_file_duplicate_flag:
  assumes "store_file w file (s, hs) = Inr (s', hs')" and "files s' \<noteq> files s"
  shows "files s' = files s @ [last (files s')] \<and>
         path (last (files s')) = file \<and>
         sha1_hexdigest w file = Some (hash (last (files s'))) \<and>
         (duplicate (last (files s')) = 1 \<longleftrightarrow>
            (\<exists>r \<in> set (files s). hash r = hash (last (files s'))) \<or>
            hash (last (files s')) \<in> dom hs) \<and>
         (duplicate (last (files s')) = 0 \<longleftrightarrow>
            \<not> ((\<exists>r \<in> set (files s). hash r = hash (last (files s'))) \<or>
               hash (last (files s')) \<in> dom hs)) \<and>
         hs' = (if duplicate (last (files s')) = 0
                then hs(hash (last (files s')) \<mapsto> hash (last (files s'))) else hs)"
  using assms
  by (auto simp: store_file_def Let_def insert_file_info_def file_info_row_def hash_file_Inr
      select_hash_None split: sum.splits if_splits)

text \<open>
  The second of the two identical pictures, after the first: in the table and in
  \<^verbatim>\<open>hashes\<close>, so flagged, and \<^verbatim>\<open>hashes\<close> is left as it was.
\<close>

theorem store_file_duplicate_flag_witness:
  "store_file example_world ''b.jpg''
     (\<lparr>files = [example_row ''X'' ''a.jpg'' 0], clock_reads = 1, logged = []\<rparr>, [''X'' \<mapsto> ''X'']) =
     Inr (\<lparr>files = [example_row ''X'' ''a.jpg'' 0, example_row ''X'' ''b.jpg'' 1],
           clock_reads = 2, logged = []\<rparr>, [''X'' \<mapsto> ''X'']) \<and>
   duplicate (example_row ''X'' ''b.jpg'' 1) = 1 \<and>
   ''X'' \<in> dom [''X'' \<mapsto> ''X'']"
proof -
  have run: "store_file example_world ''b.jpg''
     (\<lparr>files = [example_row ''X'' ''a.jpg'' 0], clock_reads = 1, logged = []\<rparr>, [''X'' \<mapsto> ''X'']) =
     Inr (\<lparr>files = [example_row ''X'' ''a.jpg'' 0, example_row ''X'' ''b.jpg'' 1],
           clock_reads = 2, logged = []\<rparr>, [''X'' \<mapsto> ''X''])"
    by (simp add: example_simps)
  have "files \<lparr>files = [example_row ''X'' ''a.jpg'' 0, example_row ''X'' ''b.jpg'' 1],
           clock_reads = 2, logged = []\<rparr> \<noteq>
        files \<lparr>files = [example_row ''X'' ''a.jpg'' 0], clock_reads = 1, logged = []\<rparr>"
    by simp
  from store_file_duplicate_flag[OF run this] run show ?thesis
    by (simp add: example_row_def)
qed

text \<open>
  C5, as amended. Nothing catches the exception of \<^verbatim>\<open>hash_file\<close>: when a file cannot be
  opened, \<^verbatim>\<open>find_duplicates_and_store\<close> ends with the \<^verbatim>\<open>IOError\<close> of that file, unless
  an earlier file has already ended it. The rows of the files before it stay, and no
  file after it is looked at.
\<close>

theorem unreadable_file_ends_scan:
  assumes "sha1_hexdigest w f = None"
  shows "find_duplicates_and_store w (pre @ f # post) s =
           (case find_duplicates_and_store w pre s of
              (Some e, s') \<Rightarrow> (Some e, s')
            | (None, s') \<Rightarrow> (Some (IOError f), s'))"
proof -
  have "store_file w f st = Inl (IOError f)" for st
    using assms by (simp add: store_file_Inl)
  then show ?thesis
    by (simp add: find_duplicates_and_store_def store_files_append split: prod.splits option.splits)
qed

theorem unreadable_file_ends_scan_witness:
  "sha1_hexdigest example_world ''locked.jpg'' = None \<and>
   find_duplicates_and_store example_world ([''a.jpg''] @ ''locked.jpg'' # [''c.png'']) empty_state =
     (Some (IOError ''locked.jpg''),
      \<lparr>files = [example_row ''X'' ''a.jpg'' 0], clock_reads = 1, logged = []\<rparr>)"
proof -
  have h: "sha1_hexdigest example_world ''locked.jpg'' = None"
    by (simp add: example_world_def)
  have "find_duplicates_and_store example_world [''a.jpg''] empty_state =
          (None, \<lparr>files = [example_row ''X'' ''a.jpg'' 0], clock_reads = 1, logged = []\<rparr>)"
    by (simp add: find_duplicates_and_store_def example_simps)
  with unreadable_file_ends_scan[OF h, of "[''a.jpg'']" "[''c.png'']" empty_state] h
  show ?thesis by simp
qed

text \<open>
  A file that cannot be opened, followed by a picture that can: the scan ends with the
  exception, and the picture is not in the table.
\<close>

theorem unreadable_file_ends_scan_counterexample:
  "fst (find_duplicates_and_store example_world [''locked.jpg'', ''a.jpg''] empty_state) =
     Some (IOError ''locked.jpg'') \<and>
   \<not> path_exists
       (files (snd (find_duplicates_and_store example_world [''locked.jpg'', ''a.jpg'']
                      empty_state)))
       ''a.jpg''"
  unfolding example_locked fst_conv snd_conv
  by (simp add: empty_state_def path_exists_def)

text \<open>
  C6, as amended. For a path the table already holds, the iteration first computes the
  hash of the file and reads its size and dates, and raises when either fails; only
  then it skips the file: no row is inserted, \<^verbatim>\<open>hashes\<close> is left as it was, and the
  skip is logged with the hash that was computed.
\<close>

theorem stored_path_is_hashed_then_skipped:
  assumes "path_exists (files s) f"
  shows "store_file w f (s, hs) =
           (case sha1_hexdigest w f of
              None \<Rightarrow> Inl (IOError f)
            | Some h \<Rightarrow>
                (case stat_file w f of
                   None \<Rightarrow> Inl (OSError f)
                 | Some x \<Rightarrow>
                     Inr (s\<lparr>clock_reads := Suc (clock_reads s),
                            logged := logged s @ [Skipped_same_path f h]\<rparr>, hs)))"
  using assms
  by (auto simp: store_file_def hash_file_def get_file_info_def Let_def
      split: option.splits prod.splits)

theorem stored_path_is_hashed_then_skipped_witness:
  "path_exists (files \<lparr>files = [example_row ''X'' ''a.jpg'' 0], clock_reads = 1, logged = []\<rparr>)
     ''a.jpg'' \<and>
   store_file example_world ''a.jpg''
     (\<lparr>files = [example_row ''X'' ''a.jpg'' 0], clock_reads = 1, logged = []\<rparr>, Map.empty) =
     Inr (\<lparr>files = [example_row ''X'' ''a.jpg'' 0], clock_reads = 2,
            logged = [Skipped_same_path ''a.jpg'' ''X'']\<rparr>, Map.empty)"
proof -
  have h: "path_exists
      (files \<lparr>files = [example_row ''X'' ''a.jpg'' 0], clock_reads = 1, logged = []\<rparr>) ''a.jpg''"
    by (simp add: path_exists_def example_row_def)
  from stored_path_is_hashed_then_skipped[OF h, of example_world Map.empty] h
  show ?thesis by (simp add: example_world_def)
qed

text \<open>
  A path in the table whose file can no longer be opened: the iteration does not skip
  it, the exception of \<^verbatim>\<open>hash_file\<close> ends the scan.
\<close>

theorem stored_path_is_hashed_then_skipped_counterexample:
  "path_exists [example_row ''X'' ''locked.jpg'' 0] ''locked.jpg'' \<and>
   store_file example_world ''locked.jpg''
     (\<lparr>files = [example_row ''X'' ''locked.jpg'' 0], clock_reads = 1, logged = []\<rparr>, Map.empty) =
     Inl (IOError ''locked.jpg'')"
  by (simp add: path_exists_def example_row_def store_file_def example_hash_file)

text \<open>
  C9. \<^verbatim>\<open>find_duplicates_and_store\<close> ends as the loop without the dictionary \<^verbatim>\<open>hashes\<close>
  does, with the same table, clock and log: every key of \<^verbatim>\<open>hashes\<close> is the hash of a row
  that the query on the table finds.
\<close>

theorem seen_set_is_redundant:
  "find_duplicates_and_store w fs s = store_files_catalog_only w fs s \<and>
   (\<forall>h. snd (snd (store_files w fs (s, Map.empty))) h \<noteq> None \<longrightarrow>
      select_hash (files (fst (snd (store_files w fs (s, Map.empty))))) h = Some h)"
proof -
  have "\<forall>h. Map.empty h \<noteq> None \<longrightarrow> (\<exists>r \<in> set (files s). hash r = h)" by simp
  from store_files_catalog_only_eq[OF this, of w fs]
  have eq: "store_files_catalog_only w fs s =
          (fst (store_files w fs (s, Map.empty)), fst (snd (store_files w fs (s, Map.empty))))"
    and seen: "\<forall>h. snd (snd (store_files w fs (s, Map.empty))) h \<noteq> None \<longrightarrow>
            (\<exists>r \<in> set (files (fst (snd (store_files w fs (s, Map.empty))))). hash r = h)"
    by blast+
  have "select_hash tbl h = Some h" if "\<exists>r \<in> set tbl. hash r = h" for tbl h
  proof (cases "select_hash tbl h")
    case None
    with that show ?thesis by (auto simp: select_hash_None)
  next
    case (Some h')
    then show ?thesis by (auto simp: select_hash_def find_Some_iff)
  qed
  with eq seen show ?thesis by (simp add: find_duplicates_and_store_conv)
qed

theorem seen_set_is_redundant_witness:
  "store_files_catalog_only example_world [''a.jpg'', ''b.jpg'', ''c.png''] empty_state =
     (None, \<lparr>files = [example_row ''X'' ''a.jpg'' 0, example_row ''X'' ''b.jpg'' 1,
                       example_row ''Y'' ''c.png'' 0],
             clock_reads = 3, logged = []\<rparr>)"
  using seen_set_is_redundant[of example_world "[''a.jpg'', ''b.jpg'', ''c.png'']" empty_state]
  by (simp add: example_scan)

section \<open>The claims about the reorganisation\<close>

text \<open>
  C2. In a run of \<^verbatim>\<open>reorder.py\<close> over a table, the rows the log records as moved have
  pairwise different hashes; a row that follows a moved row of the same hash is logged
  as a skipped duplicate; and the iteration for a row whose hash is a key of
  \<^verbatim>\<open>moved_files\<close> only appends that log record: it calls neither \<^verbatim>\<open>os.makedirs\<close> nor
  \<^verbatim>\<open>shutil.move\<close>, and leaves the disk and \<^verbatim>\<open>moved_files\<close> as they are.
\<close>

theorem one_move_per_hash:
  "distinct (moved_hashes tbl (reorder_log (snd (reorder os tbl d)))) \<and>
   (\<forall>j i. i < j \<and> j < length tbl \<and> j < length (reorder_log (snd (reorder os tbl d))) \<and>
      is_Moved (reorder_log (snd (reorder os tbl d)) ! i) \<and> hash (tbl ! i) = hash (tbl ! j) \<longrightarrow>
      reorder_log (snd (reorder os tbl d)) ! j =
        Skipped_duplicate (path (tbl ! j)) (hash (tbl ! j))) \<and>
   (\<forall>st (r :: file_row). moved_files st (hash r) \<noteq> None \<longrightarrow>
      reorder_record os r st =
        (None, st\<lparr>reorder_log := reorder_log st @ [Skipped_duplicate (path r) (hash r)]\<rparr>))"
proof (intro conjI allI impI)
  show "distinct (moved_hashes tbl (reorder_log (snd (reorder os tbl d))))"
    using reorder_log_against_table[of tbl os d] by (rule conjunct1)
next
  fix j i
  assume h: "i < j \<and> j < length tbl \<and> j < length (reorder_log (snd (reorder os tbl d))) \<and>
      is_Moved (reorder_log (snd (reorder os tbl d)) ! i) \<and> hash (tbl ! i) = hash (tbl ! j)"
  then have j: "j < length tbl \<and> j < length (reorder_log (snd (reorder os tbl d)))"
    by (elim conjE) (rule conjI)
  from h have "\<exists>i < j. is_Moved (reorder_log (snd (reorder os tbl d)) ! i) \<and>
      hash (tbl ! i) = hash (tbl ! j)"
    by (elim conjE) (intro exI[of _ i] conjI)
  with reorder_log_against_table[of tbl os d, THEN conjunct2, rule_format, OF j]
  show "reorder_log (snd (reorder os tbl d)) ! j =
        Skipped_duplicate (path (tbl ! j)) (hash (tbl ! j))"
    by (rule iffD2)
next
  fix st :: "'a reorder_state" and r :: file_row
  assume "moved_files st (hash r) \<noteq> None"
  then show "reorder_record os r st =
      (None, st\<lparr>reorder_log := reorder_log st @ [Skipped_duplicate (path r) (hash r)]\<rparr>)"
    by (rule reorder_record_skip)
qed

theorem one_move_per_hash_witness:
  "distinct (moved_hashes example_table
     (reorder_log (snd (reorder example_os example_table example_disk)))) \<and>
   is_Moved (reorder_log (snd (reorder example_os example_table example_disk)) ! 1) \<and>
   hash (example_table ! 1) = hash (example_table ! 2) \<and>
   reorder_log (snd (reorder example_os example_table example_disk)) ! 2 =
     Skipped_duplicate ''b.jpg'' ''X''"
proof -
  note t = one_move_per_hash[of example_table example_os example_disk]
  have p: "(1::nat) < 2 \<and> 2 < length example_table \<and>
      2 < length (reorder_log (snd (reorder example_os example_table example_disk))) \<and>
      is_Moved (reorder_log (snd (reorder example_os example_table example_disk)) ! 1) \<and>
      hash (example_table ! 1) = hash (example_table ! 2)"
    by (simp add: example_reorder_log example_table_rows)
  from t[THEN conjunct2, THEN conjunct1, rule_format, OF p]
  have "reorder_log (snd (reorder example_os example_table example_disk)) ! 2 =
     Skipped_duplicate ''b.jpg'' ''X''"
    by (simp add: example_table_rows)
  with t[THEN conjunct1] p show ?thesis by (intro conjI) simp_all
qed

text \<open>
  C8. When \<^verbatim>\<open>shutil.move\<close> raises, the iteration logs the error and the loop goes on
  with the next row, and the hash of the row is not made a key of \<^verbatim>\<open>moved_files\<close>. In a
  whole run nothing but \<^verbatim>\<open>os.makedirs\<close> can raise out of the loop: when it does not,
  the run logs one record for every row and the closing line, however many moves fail.
\<close>

theorem move_failure_is_skipped:
  "(moved_files st (hash r) = None \<and> base_dir_for os (path r) = Some b \<and>
    makedirs os (disk st) (path_join os b (take 4 (date_taken r))) = (None, d1) \<and>
    move os d1 (path r)
      (path_join os (path_join os b (take 4 (date_taken r))) (path_name (path r))) =
      (Some exn, d2) \<longrightarrow>
      reorder_record os r st =
        (None, st\<lparr>disk := d2, reorder_log := reorder_log st @ [Error_moving (path r) exn]\<rparr>) \<and>
      reorder_records os (r # rest) st =
        reorder_records os rest
          (st\<lparr>disk := d2, reorder_log := reorder_log st @ [Error_moving (path r) exn]\<rparr>) \<and>
      moved_files (snd (reorder_record os r st)) (hash r) = None) \<and>
   ((\<forall>d dir. fst (makedirs os d dir) = None) \<longrightarrow>
      fst (reorder os tbl d0) = None \<and>
      length (reorder_log (snd (reorder os tbl d0))) = length tbl + 1)"
proof (intro conjI impI)
  assume h: "moved_files st (hash r) = None \<and> base_dir_for os (path r) = Some b \<and>
    makedirs os (disk st) (path_join os b (take 4 (date_taken r))) = (None, d1) \<and>
    move os d1 (path r)
      (path_join os (path_join os b (take 4 (date_taken r))) (path_name (path r))) =
      (Some exn, d2)"
  then have s: "reorder_record os r st =
      (None, st\<lparr>disk := d2, reorder_log := reorder_log st @ [Error_moving (path r) exn]\<rparr>)"
    by (simp add: reorder_record_def Let_def)
  then show "reorder_record os r st =
      (None, st\<lparr>disk := d2, reorder_log := reorder_log st @ [Error_moving (path r) exn]\<rparr>)" .
  from s show "reorder_records os (r # rest) st =
      reorder_records os rest
        (st\<lparr>disk := d2, reorder_log := reorder_log st @ [Error_moving (path r) exn]\<rparr>)"
    by simp
  from s h show "moved_files (snd (reorder_record os r st)) (hash r) = None" by simp
next
  assume mk: "\<forall>d dir. fst (makedirs os d dir) = None"
  then show "fst (reorder os tbl d0) = None" by (rule reorder_completes)
  then show "length (reorder_log (snd (reorder os tbl d0))) = length tbl + 1"
    by (rule reorder_log_length)
qed

theorem move_failure_is_skipped_witness:
  "reorder_record example_os (example_row ''X'' ''locked.jpg'' 0)
     \<lparr>disk = example_disk, moved_files = Map.empty, reorder_log = []\<rparr> =
     (None, \<lparr>disk = example_disk, moved_files = Map.empty,
             reorder_log = [Error_moving ''locked.jpg'' ''cannot move'']\<rparr>) \<and>
   fst (reorder example_os example_table example_disk) = None \<and>
   length (reorder_log (snd (reorder example_os example_table example_disk))) = 5"
proof -
  let ?st = "\<lparr>disk = example_disk, moved_files = Map.empty, reorder_log = []\<rparr>"
  let ?r = "example_row ''X'' ''locked.jpg'' 0"
  let ?dir = "path_join example_os (BASE_PHOTO_DIR example_os) (take 4 (date_taken ?r))"
  have h: "moved_files ?st (hash ?r) = None \<and>
           base_dir_for example_os (path ?r) = Some (BASE_PHOTO_DIR example_os) \<and>
           makedirs example_os (disk ?st) ?dir = (None, example_disk) \<and>
           move example_os example_disk (path ?r)
             (path_join example_os ?dir (path_name (path ?r))) =
             (Some ''cannot move'', example_disk)"
    by (simp add: example_table_rows example_base_dir example_os_calls)
  have mk: "\<forall>d dir. fst (makedirs example_os d dir) = None"
    by (simp add: example_os_calls)
  note t = move_failure_is_skipped[of ?st ?r example_os "BASE_PHOTO_DIR example_os"
      example_disk "''cannot move''" example_disk "[]" example_table example_disk]
  from t[THEN conjunct1, THEN mp, OF h, THEN conjunct1]
  have a: "reorder_record example_os ?r ?st =
     (None, \<lparr>disk = example_disk, moved_files = Map.empty,
             reorder_log = [Error_moving ''locked.jpg'' ''cannot move'']\<rparr>)"
    by (simp add: example_table_rows)
  from t[THEN conjunct2, THEN mp, OF mk]
  have "fst (reorder example_os example_table example_disk) = None \<and>
     length (reorder_log (snd (reorder example_os example_table example_disk))) = 5"
    by (simp add: example_table_rows)
  with a show ?thesis by (intro conjI) simp_all
qed

text \<open>
  C10. An iteration changes \<^verbatim>\<open>moved_files\<close> only by recording the hash of the row it
  has just logged as moved, with its destination: it leaves the dictionary as it is when
  the extension of the path is not recognised and when \<^verbatim>\<open>shutil.move\<close> raises. So in a
  whole run a row is not skipped as a duplicate as long as no earlier row of its hash
  was moved, whatever became of those rows.
\<close>

theorem hash_recorded_after_move_only:
  "(moved_files (snd (reorder_record os r st)) = moved_files st \<or>
    (\<exists>dst. reorder_log (snd (reorder_record os r st)) = reorder_log st @ [Moved (path r) dst] \<and>
       moved_files (snd (reorder_record os r st)) = (moved_files st)(hash r \<mapsto> dst))) \<and>
   (base_dir_for os (path r) = None \<longrightarrow>
      moved_files (snd (reorder_record os r st)) = moved_files st) \<and>
   ((\<exists>exn. reorder_log (snd (reorder_record os r st)) =
        reorder_log st @ [Error_moving (path r) exn]) \<longrightarrow>
      moved_files (snd (reorder_record os r st)) = moved_files st) \<and>
   (\<forall>j. j < length tbl \<and> j < length (reorder_log (snd (reorder os tbl d))) \<and>
      (\<forall>i < j. hash (tbl ! i) = hash (tbl ! j) \<longrightarrow>
         \<not> is_Moved (reorder_log (snd (reorder os tbl d)) ! i)) \<longrightarrow>
      reorder_log (snd (reorder os tbl d)) ! j \<noteq>
        Skipped_duplicate (path (tbl ! j)) (hash (tbl ! j)))"
proof -
  obtain e st' where step: "reorder_record os r st = (e, st')"
    by (cases "reorder_record os r st")
  from reorder_record_moved_files[OF step]
  have a: "moved_files st' = moved_files st \<or>
    (\<exists>dst. reorder_log st' = reorder_log st @ [Moved (path r) dst] \<and>
       moved_files st' = (moved_files st)(hash r \<mapsto> dst))"
    by blast
  have b: "moved_files st' = moved_files st" if "base_dir_for os (path r) = None"
    using step that by (auto simp: reorder_record_def split: if_splits)
  have c: "moved_files st' = moved_files st"
    if "\<exists>exn. reorder_log st' = reorder_log st @ [Error_moving (path r) exn]"
    using a that by auto
  have d: "reorder_log (snd (reorder os tbl d)) ! j \<noteq>
        Skipped_duplicate (path (tbl ! j)) (hash (tbl ! j))"
    if j: "j < length tbl \<and> j < length (reorder_log (snd (reorder os tbl d)))"
      and none: "\<forall>i < j. hash (tbl ! i) = hash (tbl ! j) \<longrightarrow>
         \<not> is_Moved (reorder_log (snd (reorder os tbl d)) ! i)"
    for j
  proof
    assume "reorder_log (snd (reorder os tbl d)) ! j =
        Skipped_duplicate (path (tbl ! j)) (hash (tbl ! j))"
    with reorder_log_against_table[of tbl os d, THEN conjunct2, rule_format, OF j]
    have "\<exists>i < j. is_Moved (reorder_log (snd (reorder os tbl d)) ! i) \<and>
        hash (tbl ! i) = hash (tbl ! j)"
      by (rule iffD1)
    then obtain i where "i < j" "is_Moved (reorder_log (snd (reorder os tbl d)) ! i)"
      "hash (tbl ! i) = hash (tbl ! j)"
      by (elim exE conjE)
    with none show False by blast
  qed
  show ?thesis
  proof (intro conjI allI impI)
    from a step show "moved_files (snd (reorder_record os r st)) = moved_files st \<or>
      (\<exists>dst. reorder_log (snd (reorder_record os r st)) = reorder_log st @ [Moved (path r) dst] \<and>
         moved_files (snd (reorder_record os r st)) = (moved_files st)(hash r \<mapsto> dst))"
      by simp
  next
    assume "base_dir_for os (path r) = None"
    from b[OF this] step show "moved_files (snd (reorder_record os r st)) = moved_files st"
      by simp
  next
    assume "\<exists>exn. reorder_log (snd (reorder_record os r st)) =
        reorder_log st @ [Error_moving (path r) exn]"
    with step have "\<exists>exn. reorder_log st' = reorder_log st @ [Error_moving (path r) exn]"
      by simp
    from c[OF this] step show "moved_files (snd (reorder_record os r st)) = moved_files st"
      by simp
  next
    fix j
    assume h: "j < length tbl \<and> j < length (reorder_log (snd (reorder os tbl d))) \<and>
      (\<forall>i < j. hash (tbl ! i) = hash (tbl ! j) \<longrightarrow>
         \<not> is_Moved (reorder_log (snd (reorder os tbl d)) ! i))"
    then have j: "j < length tbl \<and> j < length (reorder_log (snd (reorder os tbl d)))"
      by (elim conjE) (intro conjI)
    from h have none: "\<forall>i < j. hash (tbl ! i) = hash (tbl ! j) \<longrightarrow>
         \<not> is_Moved (reorder_log (snd (reorder os tbl d)) ! i)"
      by (elim conjE)
    from j none show "reorder_log (snd (reorder os tbl d)) ! j \<noteq>
        Skipped_duplicate (path (tbl ! j)) (hash (tbl ! j))"
      by (rule d)
  qed
qed

theorem hash_recorded_after_move_only_witness:
  "reorder_log (snd (reorder example_os example_table example_disk)) ! 0 =
     Error_moving ''locked.jpg'' ''cannot move'' \<and>
   hash (example_table ! 0) = hash (example_table ! 1) \<and>
   reorder_log (snd (reorder example_os example_table example_disk)) ! 1 \<noteq>
     Skipped_duplicate ''a.jpg'' ''X'' \<and>
   base_dir_for example_os (path (example_row ''W'' ''notes.txt'' 0)) = None \<and>
   moved_files (snd (reorder_record example_os (example_row ''W'' ''notes.txt'' 0)
      \<lparr>disk = example_disk, moved_files = Map.empty, reorder_log = []\<rparr>)) = Map.empty"
proof -
  let ?st = "\<lparr>disk = example_disk, moved_files = Map.empty, reorder_log = []\<rparr>"
  let ?r = "example_row ''W'' ''notes.txt'' 0"
  note t = hash_recorded_after_move_only[of example_os ?r ?st example_table example_disk]
  have u: "base_dir_for example_os (path ?r) = None"
    by (simp add: example_table_rows example_base_dir)
  from t[THEN conjunct2, THEN conjunct1, THEN mp, OF u]
  have a: "moved_files (snd (reorder_record example_os ?r ?st)) = Map.empty"
    by simp
  have p: "(1::nat) < length example_table \<and>
      1 < length (reorder_log (snd (reorder example_os example_table example_disk))) \<and>
      (\<forall>i < 1. hash (example_table ! i) = hash (example_table ! 1) \<longrightarrow>
         \<not> is_Moved (reorder_log (snd (reorder example_os example_table example_disk)) ! i))"
    by (simp add: example_reorder_log example_table_rows)
  from t[THEN conjunct2, THEN conjunct2, THEN conjunct2, THEN spec, THEN mp, OF p]
  have b: "reorder_log (snd (reorder example_os example_table example_disk)) ! 1 \<noteq>
     Skipped_duplicate ''a.jpg'' ''X''"
    by (simp add: example_table_rows)
  have c: "reorder_log (snd (reorder example_os example_table example_disk)) ! 0 =
     Error_moving ''locked.jpg'' ''cannot move''"
    "hash (example_table ! 0) = hash (example_table ! 1)"
    by (simp_all add: example_reorder_log example_table_rows)
  from a b c u show ?thesis by (intro conjI)
qed

section \<open>The date taken\<close>

lemma is_digit_digit_char: "is_digit (digit_char n)"
proof -
  have "n mod 10 < length ''0123456789''" by simp
  then have "''0123456789'' ! (n mod 10) \<in> set ''0123456789''" by (rule nth_mem)
  then show ?thesis by (simp only: is_digit_def digit_char_def)
qed

lemma zero_padded_6:
  "zero_padded 6 n =
     [digit_char (n div 10 div 10 div 10 div 10 div 10), digit_char (n div 10 div 10 div 10 div 10),
      digit_char (n div 10 div 10 div 10), digit_char (n div 10 div 10),
      digit_char (n div 10), digit_char n]"
proof -
  have "zero_padded (Suc (Suc (Suc (Suc (Suc (Suc 0)))))) n =
     [digit_char (n div 10 div 10 div 10 div 10 div 10), digit_char (n div 10 div 10 div 10 div 10),
      digit_char (n div 10 div 10 div 10), digit_char (n div 10 div 10),
      digit_char (n div 10), digit_char n]"
    by simp
  moreover have "(6::nat) = Suc (Suc (Suc (Suc (Suc (Suc 0)))))" by simp
  ultimately show ?thesis by (simp only:)
qed

text \<open>What \<^verbatim>\<open>isoformat\<close> prints has the extended ISO 8601 form.\<close>

lemma is_iso8601_isoformat: "is_iso8601 (isoformat d)"
  by (simp add: is_iso8601_def isoformat_def zero_padded_2 zero_padded_4 zero_padded_6
      is_digit_digit_char)

text \<open>
  The fallback: a file without an embedded date, or with an empty one, gets the creation
  time of the file, as \<^verbatim>\<open>isoformat\<close> prints it.
\<close>

lemma get_file_info_fallback:
  assumes "stat_file w f = Some (sz, ctime)"
    and "embedded_date_taken w f = None \<or> embedded_date_taken w f = Some []"
  shows "get_file_info w n f = Inr (sz, isoformat ctime, isoformat (clock w n))"
  using assms by (auto simp: get_file_info_def)

lemma exif_date_time_original_None:
  "exif_date_time_original items = None \<longleftrightarrow> 36867 \<notin> fst ` set items"
  by (force simp: exif_date_time_original_def find_None_iff)

lemma embedded_date_taken_None:
  assumes "lower (path_suffix f) \<notin> IMAGE_EXTENSIONS \<and> lower (path_suffix f) \<notin> VIDEO_EXTENSIONS \<or>
           lower (path_suffix f) \<in> IMAGE_EXTENSIONS \<and>
             (getexif w f = Exif_Raises \<or> getexif w f = Exif_None \<or>
              (\<exists>items. getexif w f = Exif_Data items \<and> 36867 \<notin> fst ` set items)) \<or>
           lower (path_suffix f) \<notin> IMAGE_EXTENSIONS \<and> lower (path_suffix f) \<in> VIDEO_EXTENSIONS \<and>
             (\<forall>d. video_metadata w f \<noteq> Video_Metadata (Some d))"
  shows "embedded_date_taken w f = None"
proof (cases "lower (path_suffix f) \<in> IMAGE_EXTENSIONS")
  case True
  with assms have "getexif w f = Exif_Raises \<or> getexif w f = Exif_None \<or>
      (\<exists>items. getexif w f = Exif_Data items \<and> 36867 \<notin> fst ` set items)"
    by blast
  with True show ?thesis
    by (auto simp: embedded_date_taken_def exif_date_time_original_None)
next
  case False
  show ?thesis
  proof (cases "lower (path_suffix f) \<in> VIDEO_EXTENSIONS")
    case True
    with False assms have "\<forall>d. video_metadata w f \<noteq> Video_Metadata (Some d)" by blast
    with False True show ?thesis
      by (simp add: embedded_date_taken_def split: video_read.splits option.splits)
  next
    case nv: False
    with False show ?thesis by (simp add: embedded_date_taken_def)
  qed
qed

lemma example_scan_exif:
  "find_duplicates_and_store example_world [''exif.jpg''] empty_state =
     (None,
      \<lparr>files = [\<lparr>hash = ''Z'', path = ''exif.jpg'', size_bytes = 1,
                 date_taken = ''2020:06:01 12:00:00'', date_saved = ''2020-06-01T12:00:00'',
                 duplicate = 0\<rparr>],
       clock_reads = 1, logged = []\<rparr>)"
  by (simp add: find_duplicates_and_store_def example_simps)

text \<open>
  C7 fails on the code. A picture whose EXIF data carries \<^verbatim>\<open>DateTimeOriginal\<close> is stored
  with the value of the tag as it is, and EXIF writes the date with colons: the stored
  \<open>date_taken\<close> is not an ISO 8601 string, while \<open>date_saved\<close> of the same row is one.
\<close>

theorem exif_date_taken_is_stored_raw:
  "date_taken (last (files (snd
      (find_duplicates_and_store example_world [''exif.jpg''] empty_state)))) =
     ''2020:06:01 12:00:00'' \<and>
   \<not> is_iso8601 (date_taken (last (files (snd
      (find_duplicates_and_store example_world [''exif.jpg''] empty_state))))) \<and>
   is_iso8601 (date_saved (last (files (snd
      (find_duplicates_and_store example_world [''exif.jpg''] empty_state)))))"
  unfolding example_scan_exif snd_conv
  by (simp add: is_iso8601_def is_digit_def)

end
